theory Spec2Isabelle
  imports Complex_Main "HOL-Library.Product_Lexorder"
begin

section \<open>The DataVest dashboard: fee calculator, wealth index and ranking\<close>

text \<open>
  The development embeds the calculation core of \<^verbatim>\<open>dashboard.py\<close>: the fee table
  and tier bands, the fee calculator tab, the wealth index
  \<^verbatim>\<open>df_period / df_period.iloc[0] * chart_investment\<close> and the row-wise ranking.

  Numbers. A Python \<^verbatim>\<open>int\<close>, a finite \<^verbatim>\<open>float\<close> and a decimal literal such as
  \<^verbatim>\<open>1.8\<close> each denote a rational number (type \<open>rat\<close>). The fee calculator and
  \<open>wealth_df\<close> compute with these rationals exactly: they give the values that Python's
  floats approximate. Comparisons of such numbers are exact in Python as well. Where a
  property depends on the rounding of binary64, the rounding is modelled (\<open>binary64\<close>,
  \<open>wealth_df64\<close>); overflow and the sign of zero are not.
  The special values that a pandas division produces where Python itself would raise
  (\<^verbatim>\<open>inf\<close>, \<^verbatim>\<open>-inf\<close>, \<^verbatim>\<open>nan\<close>) are values of the model (type \<open>cell\<close>).

  Errors. Every place where the script can raise is a branch of the model that returns
  \<open>Inl\<close> of the Python exception.
\<close>

subsection \<open>Python exceptions and dictionary subscription\<close>

datatype py_error = KeyError | IndexError | ZeroDivisionError

text \<open>\<^verbatim>\<open>d[k]\<close> on a dictionary literal: the value of the key, or \<^verbatim>\<open>KeyError\<close>.\<close>

definition subscript :: "('k \<times> 'v) list \<Rightarrow> 'k \<Rightarrow> py_error + 'v" where
  "subscript d k = (case map_of d k of None \<Rightarrow> Inl KeyError | Some v \<Rightarrow> Inr v)"

text \<open>\<^verbatim>\<open>a / b\<close> on Python floats: \<^verbatim>\<open>ZeroDivisionError\<close> when \<open>b\<close> is zero.\<close>

definition truediv :: "rat \<Rightarrow> rat \<Rightarrow> py_error + rat" where
  "truediv a b = (if b = 0 then Inl ZeroDivisionError else Inr (a / b))"

subsection \<open>Fee table and tier bands\<close>

definition fee_matrix :: "(string \<times> (string \<times> rat) list) list" where
  "fee_matrix =
    [(''3 months'', [(''10-50'', 2.0), (''50-250'', 1.8), (''250-500'', 1.5), (''500-1000'', 1.2), (''>1000'', 1.0)]),
     (''6 months'', [(''10-50'', 2.5), (''50-250'', 2.3), (''250-500'', 2.2), (''500-1000'', 2.0), (''>1000'', 1.8)]),
     (''9 months'', [(''10-50'', 3.0), (''50-250'', 2.8), (''250-500'', 2.7), (''500-1000'', 2.6), (''>1000'', 2.5)]),
     (''1 year'',   [(''10-50'', 3.5), (''50-250'', 3.3), (''250-500'', 3.1), (''500-1000'', 3.0), (''>1000'', 2.9)])]"

definition get_fee_rate_by_tier :: "string \<Rightarrow> string \<Rightarrow> py_error + rat" where
  "get_fee_rate_by_tier tier horizon =
    (case subscript fee_matrix horizon of
       Inl e \<Rightarrow> Inl e
     | Inr row \<Rightarrow> subscript row tier)"

definition determine_tier :: "rat \<Rightarrow> string" where
  "determine_tier investment_million =
    (if investment_million \<le> 50 then ''10-50''
     else if investment_million \<le> 250 then ''50-250''
     else if investment_million \<le> 500 then ''250-500''
     else if investment_million \<le> 1000 then ''500-1000''
     else ''>1000'')"

subsection \<open>The fee calculator tab\<close>

text \<open>Lines 164 to 169: the number of installments of a tier and a horizon.\<close>

definition installments :: "string \<Rightarrow> string \<Rightarrow> nat" where
  "installments tier fee_horizon =
    (if fee_horizon \<in> set [''6 months'', ''9 months'', ''1 year'']
     then (if tier = ''250-500'' then 2
           else if tier \<in> set [''500-1000'', ''>1000''] then 3
           else 1)
     else 1)"

definition months_map :: "(string \<times> rat) list" where
  "months_map = [(''3 months'', 3), (''6 months'', 6), (''9 months'', 9), (''1 year'', 12)]"

text \<open>
  The values the tab computes, under the names of the script's variables. \<open>each\<close> exists
  only when there is more than one installment, \<open>saving\<close> and \<open>saving_percent\<close> only when
  the horizon is not \<^verbatim>\<open>"3 months"\<close>.
\<close>

record fee_quote =
  fee_investment :: rat
  tier :: string
  base_rate :: rat
  num_installments :: nat
  fee_rial :: rat
  each :: "rat option"
  reference_monthly_fee :: rat
  current_monthly_fee :: rat
  saving :: "rat option"
  saving_percent :: "rat option"

text \<open>
  Lines 157 to 192, in the order of the script. The divisions by the literals \<open>100\<close>
  and \<open>3\<close>, by a value of \<open>months_map\<close> and by a number of installments above one cannot
  raise; \<^verbatim>\<open>saving / reference_monthly_fee\<close> can.
\<close>

definition fee_calculator :: "rat \<Rightarrow> string \<Rightarrow> py_error + fee_quote" where
  "fee_calculator fee_investment_million fee_horizon =
    (let investment = fee_investment_million * 100000 * 10;
         t = determine_tier fee_investment_million
     in case get_fee_rate_by_tier t fee_horizon of
          Inl e \<Rightarrow> Inl e
        | Inr rate \<Rightarrow>
      (let n = installments t fee_horizon;
           fee = investment * rate / 100;
           per = (if n > 1 then Some ((fee + fee * 0.05) / of_nat n) else None)
       in case get_fee_rate_by_tier t ''3 months'' of
            Inl e \<Rightarrow> Inl e
          | Inr reference_rate \<Rightarrow>
        (let reference = (reference_rate / 100) * investment / 3
         in case subscript months_map fee_horizon of
              Inl e \<Rightarrow> Inl e
            | Inr current_months \<Rightarrow>
          (let current = (rate / 100) * investment / current_months;
               q = \<lparr>fee_investment = investment, tier = t, base_rate = rate,
                    num_installments = n, fee_rial = fee, each = per,
                    reference_monthly_fee = reference, current_monthly_fee = current,
                    saving = None, saving_percent = None\<rparr>
           in if fee_horizon \<noteq> ''3 months''
              then (case truediv (reference - current) reference of
                      Inl e \<Rightarrow> Inl e
                    | Inr ratio \<Rightarrow>
                        Inr (q\<lparr>saving := Some (reference - current),
                               saving_percent := Some (ratio * 100)\<rparr>))
              else Inr q))))"

subsection \<open>Cells of a data frame\<close>

text \<open>
  A numeric cell of a pandas frame: a finite number, an infinity or \<^verbatim>\<open>nan\<close> (also the
  missing value of a CSV file). \<open>cell_div\<close> and \<open>cell_mul\<close> follow binary64 on the special
  values and give the exact quotient and product on finite ones, before any rounding
  (\<open>round_cell\<close>, further down, rounds them); the zero of the model is the positive zero.
\<close>

datatype cell = Fin rat | PosInf | NegInf | NaN

fun cell_div :: "cell \<Rightarrow> cell \<Rightarrow> cell" where
  "cell_div NaN y = NaN"
| "cell_div x NaN = NaN"
| "cell_div (Fin a) (Fin b) =
     (if b \<noteq> 0 then Fin (a / b)
      else if 0 < a then PosInf else if a < 0 then NegInf else NaN)"
| "cell_div (Fin a) y = Fin 0"
| "cell_div PosInf (Fin b) = (if 0 \<le> b then PosInf else NegInf)"
| "cell_div NegInf (Fin b) = (if 0 \<le> b then NegInf else PosInf)"
| "cell_div x y = NaN"

fun cell_mul :: "cell \<Rightarrow> cell \<Rightarrow> cell" where
  "cell_mul NaN y = NaN"
| "cell_mul x NaN = NaN"
| "cell_mul (Fin a) (Fin b) = Fin (a * b)"
| "cell_mul (Fin a) PosInf = (if 0 < a then PosInf else if a < 0 then NegInf else NaN)"
| "cell_mul (Fin a) NegInf = (if 0 < a then NegInf else if a < 0 then PosInf else NaN)"
| "cell_mul PosInf (Fin b) = (if 0 < b then PosInf else if b < 0 then NegInf else NaN)"
| "cell_mul NegInf (Fin b) = (if 0 < b then NegInf else if b < 0 then PosInf else NaN)"
| "cell_mul PosInf PosInf = PosInf"
| "cell_mul PosInf NegInf = NegInf"
| "cell_mul NegInf PosInf = NegInf"
| "cell_mul NegInf NegInf = PosInf"

text \<open>\<^verbatim>\<open>x < y\<close> on cells: false as soon as one side is \<^verbatim>\<open>nan\<close>.\<close>

fun cell_less :: "cell \<Rightarrow> cell \<Rightarrow> bool" where
  "cell_less NaN y = False"
| "cell_less x NaN = False"
| "cell_less (Fin a) (Fin b) = (a < b)"
| "cell_less x PosInf = (x \<noteq> PosInf)"
| "cell_less NegInf y = (y \<noteq> NegInf)"
| "cell_less x y = False"

subsection \<open>The wealth index\<close>

text \<open>
  A frame is the list of its rows, oldest first, each row the list of its cells in the
  order of the columns; all rows of a frame have the same length. \<^verbatim>\<open>df.tail(n)\<close>
  keeps the last \<open>n\<close> rows (all of them when there are fewer), and \<^verbatim>\<open>.iloc[0]\<close> raises
  \<^verbatim>\<open>IndexError\<close> on a frame without rows.
\<close>

definition tail :: "nat \<Rightarrow> 'a list \<Rightarrow> 'a list" where
  "tail n rows = drop (length rows - n) rows"

definition iloc0 :: "'a list \<Rightarrow> py_error + 'a" where
  "iloc0 rows = (case rows of [] \<Rightarrow> Inl IndexError | r # _ \<Rightarrow> Inr r)"

definition weeks_map :: "(string \<times> nat) list" where
  "weeks_map = [(''1 month'', 4), (''3 months'', 13), (''6 months'', 26), (''1 year'', 52),
                (''2 years'', 104), (''3 years'', 156)]"

text \<open>
  Lines 53 and 54: \<^verbatim>\<open>df_period = df.tail(weeks)\<close> and
  \<^verbatim>\<open>wealth_df = df_period / df_period.iloc[0] * chart_investment\<close>. The division of a
  frame by a row divides each row cell by cell, column against column; the product with
  the number multiplies every cell. \<open>weeks\<close> is a value of \<open>weeks_map\<close>, and
  \<open>chart_investment\<close> is the sidebar's input times \<open>1000000\<close>.
\<close>

definition wealth_df :: "cell list list \<Rightarrow> nat \<Rightarrow> rat \<Rightarrow> py_error + cell list list" where
  "wealth_df df weeks chart_investment =
    (let df_period = tail weeks df
     in case iloc0 df_period of
          Inl e \<Rightarrow> Inl e
        | Inr base \<Rightarrow>
            Inr (map (\<lambda>row. map (\<lambda>x. cell_mul x (Fin chart_investment)) (map2 cell_div row base))
                   df_period))"

subsection \<open>The wealth index in binary64\<close>

text \<open>
  \<open>wealth_df\<close> gives the exact value of every cell. Python and pandas compute line 54 in
  binary64: the quotient, the initial investment (an \<^verbatim>\<open>int\<close> converted to a float) and
  the product are each rounded to the nearest number with a significand of 53 bits, ties
  to the even significand. \<open>binary64\<close> is this rounding on the rationals: \<open>pw\<close> is the power
  of two with \<open>pw \<le> \<bar>x\<bar> < 2 * pw\<close>, and the result is the multiple of \<open>pw / 2 ^ 52\<close> nearest
  to \<open>x\<close>. The exponent is not bounded: overflow to \<^verbatim>\<open>inf\<close> and gradual underflow, which
  need magnitudes above \<open>1e308\<close> or below \<open>1e-308\<close>, are outside the model.
\<close>

function bit_length :: "int \<Rightarrow> nat" where
  "bit_length n = (if n \<le> 0 then 0 else Suc (bit_length (n div 2)))"
  by pat_completeness auto
termination
  by (relation "measure nat") auto

definition round_half_even :: "rat \<Rightarrow> int" where
  "round_half_even y =
    (let f = \<lfloor>y\<rfloor>; r = y - of_int f
     in if r < 1 / 2 then f else if 1 / 2 < r then f + 1 else if even f then f else f + 1)"

definition binary64 :: "rat \<Rightarrow> rat" where
  "binary64 x =
    (if x = 0 then 0
     else let (p, q) = quotient_of \<bar>x\<bar>;
              hi = 2 ^ bit_length p / 2 ^ bit_length q;
              pw = (if hi \<le> \<bar>x\<bar> then hi else hi / 2);
              ulp = pw / 2 ^ 52
          in sgn x * of_int (round_half_even (\<bar>x\<bar> / ulp)) * ulp)"

definition round_cell :: "cell \<Rightarrow> cell" where
  "round_cell x = (case x of Fin a \<Rightarrow> Fin (binary64 a) | _ \<Rightarrow> x)"

text \<open>
  Line 54 with the rounding after each operation, and \<^verbatim>\<open>k * frame\<close>, the product of a
  number and a frame, in binary64.
\<close>

definition wealth_df64 :: "cell list list \<Rightarrow> nat \<Rightarrow> rat \<Rightarrow> py_error + cell list list" where
  "wealth_df64 df weeks chart_investment =
    (let df_period = tail weeks df
     in case iloc0 df_period of
          Inl e \<Rightarrow> Inl e
        | Inr base \<Rightarrow>
            Inr (map (\<lambda>row. map (\<lambda>x. round_cell (cell_mul x (round_cell (Fin chart_investment))))
                              (map round_cell (map2 cell_div row base)))
                   df_period))"

definition scale64 :: "rat \<Rightarrow> cell list list \<Rightarrow> cell list list" where
  "scale64 k frame = map (map (\<lambda>x. round_cell (cell_mul (round_cell (Fin k)) x))) frame"

text \<open>
  The vocabulary of rounding errors: \<open>close r y x\<close> says that \<open>y\<close> is within the relative
  error \<open>r\<close> of \<open>x\<close>; \<open>cell_close r y x\<close> says the same of two finite cells, and that \<open>y\<close> is
  \<open>x\<close> when \<open>x\<close> is an infinity or \<^verbatim>\<open>nan\<close>. One rounding has a relative error of at most
  \<open>unit_roundoff\<close>.
\<close>

definition unit_roundoff :: rat where
  "unit_roundoff = 1 / 2 ^ 53"

definition close :: "rat \<Rightarrow> rat \<Rightarrow> rat \<Rightarrow> bool" where
  "close r y x = (\<bar>y - x\<bar> \<le> r * \<bar>x\<bar>)"

definition cell_close :: "rat \<Rightarrow> cell \<Rightarrow> cell \<Rightarrow> bool" where
  "cell_close r y x =
    (case x of
       Fin a \<Rightarrow> (case y of Fin b \<Rightarrow> close r b a | _ \<Rightarrow> False)
     | _ \<Rightarrow> y = x)"

subsection \<open>Ranking\<close>

text \<open>
  Line 100: \<^verbatim>\<open>ranking = df_period.rank(axis=1, ascending=False)\<close>. The method is pandas's,
  with its defaults \<^verbatim>\<open>method='average'\<close> and \<^verbatim>\<open>na_option='keep'\<close>: within each row the
  cells that are not \<^verbatim>\<open>nan\<close> are sorted, in descending order here; one pass over the
  sorted values counts the positions from one, sums the positions of a run of equal
  values (\<open>sum_ranks\<close>, over \<open>dups\<close> values) and, at the end of the run, gives the values
  of the run the quotient; a \<^verbatim>\<open>nan\<close> cell keeps \<^verbatim>\<open>nan\<close> as its rank.

  \<open>rank_key\<close> is the order of the numbers on the cells that are not \<^verbatim>\<open>nan\<close>:
  \<open>-inf\<close> below every finite number, \<open>inf\<close> above.
\<close>

fun rank_key :: "cell \<Rightarrow> int \<times> rat" where
  "rank_key NegInf = (- 1, 0)"
| "rank_key (Fin a) = (0, a)"
| "rank_key PosInf = (1, 0)"
| "rank_key NaN = (2, 0)"

fun assign_ranks :: "nat \<Rightarrow> nat \<Rightarrow> rat \<Rightarrow> cell list \<Rightarrow> (cell \<times> rat) list" where
  "assign_ranks i dups sum_ranks [] = []"
| "assign_ranks i dups sum_ranks (v # rest) =
    (let dups' = dups + 1; sum_ranks' = sum_ranks + of_nat (i + 1)
     in if (case rest of [] \<Rightarrow> True | w # _ \<Rightarrow> w \<noteq> v)
        then (v, sum_ranks' / of_nat dups') # assign_ranks (i + 1) 0 0 rest
        else assign_ranks (i + 1) dups' sum_ranks' rest)"

definition rank_row :: "cell list \<Rightarrow> cell list" where
  "rank_row row =
    (let vals = filter (\<lambda>x. x \<noteq> NaN) row;
         ranks = assign_ranks 0 0 0 (rev (sort_key rank_key vals))
     in map (\<lambda>x. case map_of ranks x of None \<Rightarrow> NaN | Some r \<Rightarrow> Fin r) row)"

definition ranking :: "cell list list \<Rightarrow> nat \<Rightarrow> cell list list" where
  "ranking df weeks = map rank_row (tail weeks df)"

text \<open>
  The vocabulary of the ranking's properties: the number of cells of a row strictly above
  a value, the number of cells equal to it, the sum of the \<open>e\<close> positions that follow
  position \<open>g\<close>, and the descending order of a sorted list of cells.
\<close>

definition above :: "cell \<Rightarrow> cell list \<Rightarrow> nat" where
  "above w xs = length (filter (\<lambda>y. cell_less w y) xs)"

definition ties :: "cell \<Rightarrow> cell list \<Rightarrow> nat" where
  "ties w xs = length (filter (\<lambda>y. y = w) xs)"

definition position_sum :: "nat \<Rightarrow> nat \<Rightarrow> rat" where
  "position_sum g e = (\<Sum>k = g + 1..g + e. rat_of_nat k)"

definition descending :: "cell list \<Rightarrow> bool" where
  "descending xs = sorted_wrt (\<lambda>x y. rank_key y \<le> rank_key x) xs"

section \<open>The fee calculator\<close>

subsection \<open>Supporting lemmas\<close>

lemmas fee_defs = get_fee_rate_by_tier_def subscript_def fee_matrix_def

lemma rate_entries:
  "get_fee_rate_by_tier ''10-50'' ''3 months'' = Inr 2.0"
  "get_fee_rate_by_tier ''50-250'' ''3 months'' = Inr 1.8"
  "get_fee_rate_by_tier ''250-500'' ''3 months'' = Inr 1.5"
  "get_fee_rate_by_tier ''500-1000'' ''3 months'' = Inr 1.2"
  "get_fee_rate_by_tier ''>1000'' ''3 months'' = Inr 1.0"
  "get_fee_rate_by_tier ''10-50'' ''6 months'' = Inr 2.5"
  "get_fee_rate_by_tier ''50-250'' ''6 months'' = Inr 2.3"
  "get_fee_rate_by_tier ''250-500'' ''6 months'' = Inr 2.2"
  "get_fee_rate_by_tier ''500-1000'' ''6 months'' = Inr 2.0"
  "get_fee_rate_by_tier ''>1000'' ''6 months'' = Inr 1.8"
  "get_fee_rate_by_tier ''10-50'' ''9 months'' = Inr 3.0"
  "get_fee_rate_by_tier ''50-250'' ''9 months'' = Inr 2.8"
  "get_fee_rate_by_tier ''250-500'' ''9 months'' = Inr 2.7"
  "get_fee_rate_by_tier ''500-1000'' ''9 months'' = Inr 2.6"
  "get_fee_rate_by_tier ''>1000'' ''9 months'' = Inr 2.5"
  "get_fee_rate_by_tier ''10-50'' ''1 year'' = Inr 3.5"
  "get_fee_rate_by_tier ''50-250'' ''1 year'' = Inr 3.3"
  "get_fee_rate_by_tier ''250-500'' ''1 year'' = Inr 3.1"
  "get_fee_rate_by_tier ''500-1000'' ''1 year'' = Inr 3.0"
  "get_fee_rate_by_tier ''>1000'' ''1 year'' = Inr 2.9"
  by (simp_all add: fee_defs)

lemma months_entries:
  "subscript months_map ''3 months'' = Inr 3" "subscript months_map ''6 months'' = Inr 6"
  "subscript months_map ''9 months'' = Inr 9" "subscript months_map ''1 year'' = Inr 12"
  by (simp_all add: subscript_def months_map_def)

lemma fee_calculator_fields:
  assumes "fee_calculator a h = Inr q"
  shows "tier q = determine_tier a"
    and "get_fee_rate_by_tier (determine_tier a) h = Inr (base_rate q)"
    and "num_installments q = installments (determine_tier a) h"
    and "fee_investment q = a * 1000000"
    and "fee_rial q = fee_investment q * base_rate q / 100"
    and "each q = (if 1 < num_installments q then Some ((fee_rial q + fee_rial q * 0.05) / of_nat (num_installments q)) else None)"
  using assms
  by (auto simp: fee_calculator_def Let_def split: sum.splits if_splits)

lemma determine_tier_cases:
  "determine_tier a \<in> set [''10-50'', ''50-250'', ''250-500'', ''500-1000'', ''>1000'']"
  by (simp add: determine_tier_def)

lemma monthly_rate_less:
  assumes "t \<in> set [''10-50'', ''50-250'', ''250-500'', ''500-1000'', ''>1000'']"
    and "h \<in> set [''6 months'', ''9 months'', ''1 year'']"
  shows "\<exists>r r3 m. get_fee_rate_by_tier t h = Inr r \<and>
           get_fee_rate_by_tier t ''3 months'' = Inr r3 \<and>
           subscript months_map h = Inr m \<and> 0 < m \<and> 0 < r3 \<and> r / m < r3 / 3"
proof -
  let ?r = "projr (get_fee_rate_by_tier t h)"
  let ?r3 = "projr (get_fee_rate_by_tier t ''3 months'')"
  let ?m = "projr (subscript months_map h)"
  have "get_fee_rate_by_tier t h = Inr ?r \<and>
           get_fee_rate_by_tier t ''3 months'' = Inr ?r3 \<and>
           subscript months_map h = Inr ?m \<and> 0 < ?m \<and> 0 < ?r3 \<and> ?r / ?m < ?r3 / 3"
    using assms by (auto simp: rate_entries months_entries)
  then show ?thesis
    by blast
qed

lemma monthly_fee_less:
  fixes r r3 m x :: rat
  assumes "r / m < r3 / 3" and "0 < x"
  shows "(r / 100) * x / m < (r3 / 100) * x / 3"
proof -
  have "0 < x / 100"
    using assms(2) by simp
  then have "(r / m) * (x / 100) < (r3 / 3) * (x / 100)"
    using assms(1) by (rule mult_strict_right_mono [rotated])
  moreover have "(r / 100) * x / m = (r / m) * (x / 100)"
    by simp
  moreover have "(r3 / 100) * x / 3 = (r3 / 3) * (x / 100)"
    by simp
  ultimately show ?thesis
    by simp
qed

subsection \<open>The rate table\<close>

text \<open>
  Claim C1. For each of the five tiers and each of the four horizons, the rate that
  \<open>get_fee_rate_by_tier\<close> returns is the entry of the table: \<open>2.0\<close> for the first tier
  at three months, down to \<open>2.9\<close> for the last tier at one year. The rate of a quote that
  the fee calculator returns is the table's entry for the tier of the amount and the
  horizon.
\<close>

theorem fee_rate_table:
  "get_fee_rate_by_tier ''10-50'' ''3 months'' = Inr 2.0 \<and>
   get_fee_rate_by_tier ''10-50'' ''6 months'' = Inr 2.5 \<and>
   get_fee_rate_by_tier ''10-50'' ''9 months'' = Inr 3.0 \<and>
   get_fee_rate_by_tier ''10-50'' ''1 year'' = Inr 3.5 \<and>
   get_fee_rate_by_tier ''50-250'' ''3 months'' = Inr 1.8 \<and>
   get_fee_rate_by_tier ''50-250'' ''6 months'' = Inr 2.3 \<and>
   get_fee_rate_by_tier ''50-250'' ''9 months'' = Inr 2.8 \<and>
   get_fee_rate_by_tier ''50-250'' ''1 year'' = Inr 3.3 \<and>
   get_fee_rate_by_tier ''250-500'' ''3 months'' = Inr 1.5 \<and>
   get_fee_rate_by_tier ''250-500'' ''6 months'' = Inr 2.2 \<and>
   get_fee_rate_by_tier ''250-500'' ''9 months'' = Inr 2.7 \<and>
   get_fee_rate_by_tier ''250-500'' ''1 year'' = Inr 3.1 \<and>
   get_fee_rate_by_tier ''500-1000'' ''3 months'' = Inr 1.2 \<and>
   get_fee_rate_by_tier ''500-1000'' ''6 months'' = Inr 2.0 \<and>
   get_fee_rate_by_tier ''500-1000'' ''9 months'' = Inr 2.6 \<and>
   get_fee_rate_by_tier ''500-1000'' ''1 year'' = Inr 3.0 \<and>
   get_fee_rate_by_tier ''>1000'' ''3 months'' = Inr 1.0 \<and>
   get_fee_rate_by_tier ''>1000'' ''6 months'' = Inr 1.8 \<and>
   get_fee_rate_by_tier ''>1000'' ''9 months'' = Inr 2.5 \<and>
   get_fee_rate_by_tier ''>1000'' ''1 year'' = Inr 2.9 \<and>
   (fee_calculator a h = Inr q \<longrightarrow>
      tier q = determine_tier a \<and> get_fee_rate_by_tier (tier q) h = Inr (base_rate q))"
proof -
  have link: "fee_calculator a h = Inr q \<longrightarrow>
      tier q = determine_tier a \<and> get_fee_rate_by_tier (tier q) h = Inr (base_rate q)"
    using fee_calculator_fields(1,2) [of a h q] by simp
  show ?thesis
    by (intro conjI link) (simp_all add: fee_defs)
qed

theorem fee_rate_table_witness:
  "fee_calculator 100 ''3 months'' =
     Inr \<lparr>fee_investment = 100000000, tier = ''50-250'', base_rate = 1.8,
        num_installments = 1, fee_rial = 1800000, each = None,
        reference_monthly_fee = 600000, current_monthly_fee = 600000,
        saving = None, saving_percent = None\<rparr> \<and>
   get_fee_rate_by_tier ''50-250'' ''3 months'' = Inr 1.8"
proof -
  have q: "fee_calculator 100 ''3 months'' =
     Inr \<lparr>fee_investment = 100000000, tier = ''50-250'', base_rate = 1.8,
        num_installments = 1, fee_rial = 1800000, each = None,
        reference_monthly_fee = 600000, current_monthly_fee = 600000,
        saving = None, saving_percent = None\<rparr>"
    by (simp add: fee_calculator_def determine_tier_def installments_def months_map_def fee_defs)
  from fee_rate_table [of 100 "''3 months''"] q show ?thesis by simp
qed

subsection \<open>The tier bands\<close>

text \<open>
  Claim C2. \<open>determine_tier\<close> puts every amount into exactly one of five bands whose
  upper edges are inclusive: at most 50, above 50 and at most 250, above 250 and at
  most 500, above 500 and at most 1000, above 1000. The five labels are distinct, and
  the amount 50 is in the first band, not in the second.
\<close>

theorem determine_tier_bands:
  "(determine_tier a = ''10-50'') = (a \<le> 50) \<and>
   (determine_tier a = ''50-250'') = (50 < a \<and> a \<le> 250) \<and>
   (determine_tier a = ''250-500'') = (250 < a \<and> a \<le> 500) \<and>
   (determine_tier a = ''500-1000'') = (500 < a \<and> a \<le> 1000) \<and>
   (determine_tier a = ''>1000'') = (1000 < a) \<and>
   determine_tier 50 = ''10-50'' \<and> determine_tier 50 \<noteq> ''50-250'' \<and>
   distinct [''10-50'', ''50-250'', ''250-500'', ''500-1000'', ''>1000'']"
  by (simp add: determine_tier_def)

subsection \<open>The number of installments\<close>

text \<open>
  Claim C4. At three months there is one installment for every tier. At six months,
  nine months and one year there is one installment for the first two tiers, two for the
  third tier and three for the last two tiers. The number of installments of a quote is
  that of its tier and horizon.
\<close>

theorem installments_policy:
  "installments t ''3 months'' = 1 \<and>
   installments ''10-50'' ''6 months'' = 1 \<and> installments ''10-50'' ''9 months'' = 1 \<and>
   installments ''10-50'' ''1 year'' = 1 \<and>
   installments ''50-250'' ''6 months'' = 1 \<and> installments ''50-250'' ''9 months'' = 1 \<and>
   installments ''50-250'' ''1 year'' = 1 \<and>
   installments ''250-500'' ''6 months'' = 2 \<and> installments ''250-500'' ''9 months'' = 2 \<and>
   installments ''250-500'' ''1 year'' = 2 \<and>
   installments ''500-1000'' ''6 months'' = 3 \<and> installments ''500-1000'' ''9 months'' = 3 \<and>
   installments ''500-1000'' ''1 year'' = 3 \<and>
   installments ''>1000'' ''6 months'' = 3 \<and> installments ''>1000'' ''9 months'' = 3 \<and>
   installments ''>1000'' ''1 year'' = 3 \<and>
   (fee_calculator a h = Inr q \<longrightarrow> num_installments q = installments (tier q) h)"
proof -
  have link: "fee_calculator a h = Inr q \<longrightarrow> num_installments q = installments (tier q) h"
    using fee_calculator_fields(1,3) [of a h q] by simp
  show ?thesis
    by (intro conjI link) (simp_all add: installments_def)
qed

theorem installments_policy_witness:
  "fee_calculator 300 ''9 months'' =
     Inr \<lparr>fee_investment = 300000000, tier = ''250-500'', base_rate = 2.7,
        num_installments = 2, fee_rial = 8100000, each = Some 4252500,
        reference_monthly_fee = 1500000, current_monthly_fee = 900000,
        saving = Some 600000, saving_percent = Some 40\<rparr> \<and>
   installments ''250-500'' ''9 months'' = 2"
proof -
  have q: "fee_calculator 300 ''9 months'' =
     Inr \<lparr>fee_investment = 300000000, tier = ''250-500'', base_rate = 2.7,
        num_installments = 2, fee_rial = 8100000, each = Some 4252500,
        reference_monthly_fee = 1500000, current_monthly_fee = 900000,
        saving = Some 600000, saving_percent = Some 40\<rparr>"
    by (simp add: fee_calculator_def determine_tier_def installments_def months_map_def
        truediv_def fee_defs)
  from installments_policy [of "''250-500''" 300 "''9 months''"] q show ?thesis by simp
qed

subsection \<open>The surcharge on installments\<close>

text \<open>
  Claim C5. Whenever a quote has more than one installment, the amount of one
  installment times the number of installments is the total fee times \<open>1.05\<close>, where the
  total fee is the invested amount times the rate over 100; the invested amount is the
  input, in millions, times \<open>1000000\<close>. The arithmetic is exact here; in binary64 the two
  sides agree up to rounding.
\<close>

theorem installment_surcharge:
  assumes "fee_calculator a h = Inr q" and "1 < num_installments q"
  shows "\<exists>p. each q = Some p \<and> p * of_nat (num_installments q) = fee_rial q * 1.05 \<and>
             fee_rial q = fee_investment q * base_rate q / 100 \<and>
             fee_investment q = a * 1000000"
proof -
  have n: "rat_of_nat (num_installments q) \<noteq> 0"
    using assms(2) by simp
  define p where "p = (fee_rial q + fee_rial q * 0.05) / rat_of_nat (num_installments q)"
  have e: "each q = Some p"
    using assms(2) fee_calculator_fields(6) [OF assms(1)] by (simp add: p_def)
  have "p * rat_of_nat (num_installments q) = fee_rial q + fee_rial q * 0.05"
    using n by (simp add: p_def)
  also have "\<dots> = fee_rial q * 1.05"
    by (simp add: algebra_simps)
  finally have m: "p * rat_of_nat (num_installments q) = fee_rial q * 1.05" .
  from e m fee_calculator_fields(4,5) [OF assms(1)] show ?thesis
    by blast
qed

theorem installment_surcharge_witness:
  "fee_calculator 600 ''1 year'' =
     Inr \<lparr>fee_investment = 600000000, tier = ''500-1000'', base_rate = 3.0,
        num_installments = 3, fee_rial = 18000000, each = Some 6300000,
        reference_monthly_fee = 2400000, current_monthly_fee = 1500000,
        saving = Some 900000, saving_percent = Some 37.5\<rparr> \<and>
   (6300000::rat) * 3 = 18000000 * 1.05"
proof -
  have q: "fee_calculator 600 ''1 year'' =
     Inr \<lparr>fee_investment = 600000000, tier = ''500-1000'', base_rate = 3.0,
        num_installments = 3, fee_rial = 18000000, each = Some 6300000,
        reference_monthly_fee = 2400000, current_monthly_fee = 1500000,
        saving = Some 900000, saving_percent = Some 37.5\<rparr>"
    by (simp add: fee_calculator_def determine_tier_def installments_def months_map_def
        truediv_def fee_defs)
  from installment_surcharge [OF q] q show ?thesis by simp
qed

subsection \<open>Amounts that are not positive\<close>

text \<open>
  Claim C9 says that an amount of zero or less is refused with an error of its own. The
  script has no such check: the amount \<open>-5\<close> at one year is put into the first tier and
  gets a quote, with a negative fee.
\<close>

theorem nonpositive_amount_counterexample:
  "fee_calculator (- 5) ''1 year'' =
     Inr \<lparr>fee_investment = - 5000000, tier = ''10-50'', base_rate = 3.5,
        num_installments = 1, fee_rial = - 175000, each = None,
        reference_monthly_fee = - (100000 / 3), current_monthly_fee = - (43750 / 3),
        saving = Some (- 18750), saving_percent = Some 56.25\<rparr>"
  by (simp add: fee_calculator_def determine_tier_def installments_def months_map_def
        truediv_def fee_defs)

text \<open>
  Claim C9, as amended. For every negative amount at each of the four horizons, and for
  the amount zero at three months, the fee calculator raises nothing: it puts the amount
  into the first tier and returns a quote with one installment, the first tier's rate
  and a total fee, the amount times the rate over 100, that is not positive.
\<close>

theorem nonpositive_amount_quoted:
  assumes "a \<le> 0"
    and "h \<in> set [''3 months'', ''6 months'', ''9 months'', ''1 year'']"
    and "a < 0 \<or> h = ''3 months''"
  shows "\<exists>q. fee_calculator a h = Inr q \<and> tier q = ''10-50'' \<and> num_installments q = 1 \<and>
           get_fee_rate_by_tier ''10-50'' h = Inr (base_rate q) \<and>
           fee_rial q = a * 1000000 * base_rate q / 100 \<and> fee_rial q \<le> 0 \<and> each q = None"
proof -
  have t: "determine_tier a = ''10-50''"
    using assms(1) by (simp add: determine_tier_def)
  have n: "installments ''10-50'' k = 1" for k
    by (simp add: installments_def)
  have "get_fee_rate_by_tier ''10-50'' h = Inr (projr (get_fee_rate_by_tier ''10-50'' h)) \<and>
      subscript months_map h = Inr (projr (subscript months_map h)) \<and>
      0 < projr (get_fee_rate_by_tier ''10-50'' h)"
    using assms(2) by (auto simp: rate_entries months_entries)
  then obtain r m where r: "get_fee_rate_by_tier ''10-50'' h = Inr r"
    and m: "subscript months_map h = Inr m" and rpos: "0 < r"
    by blast
  have r3: "get_fee_rate_by_tier ''10-50'' ''3 months'' = Inr 2"
    by (simp add: rate_entries)
  have le: "a * 1000000 * r / 100 \<le> 0"
    using assms(1) rpos by (simp add: mult_le_0_iff)
  show ?thesis
  proof (cases "h = ''3 months''")
    case True
    then show ?thesis
      using le r m r3 by (simp add: fee_calculator_def Let_def t n)
  next
    case False
    with assms(3) have "a < 0" by simp
    then have "2 / 100 * (a * 1000000) / 3 \<noteq> 0" by simp
    then show ?thesis
      using False le r m r3 by (simp add: fee_calculator_def Let_def t n truediv_def)
  qed
qed

theorem nonpositive_amount_quoted_witness:
  "fee_calculator 0 ''3 months'' =
     Inr \<lparr>fee_investment = 0, tier = ''10-50'', base_rate = 2.0,
        num_installments = 1, fee_rial = 0, each = None,
        reference_monthly_fee = 0, current_monthly_fee = 0,
        saving = None, saving_percent = None\<rparr>"
proof -
  have a: "(0::rat) \<le> 0" by simp
  have h: "''3 months'' \<in> set [''3 months'', ''6 months'', ''9 months'', ''1 year'']" by simp
  have d: "(0::rat) < 0 \<or> ''3 months'' = ''3 months''" by simp
  have q: "fee_calculator 0 ''3 months'' =
     Inr \<lparr>fee_investment = 0, tier = ''10-50'', base_rate = 2.0,
        num_installments = 1, fee_rial = 0, each = None,
        reference_monthly_fee = 0, current_monthly_fee = 0,
        saving = None, saving_percent = None\<rparr>"
    by (simp add: fee_calculator_def determine_tier_def installments_def months_map_def
        truediv_def fee_defs)
  from nonpositive_amount_quoted [OF a h d] q show ?thesis by simp
qed

text \<open>
  The amount zero at a longer horizon is the one input of the tab that raises: the
  reference fee is zero and \<^verbatim>\<open>saving / reference_monthly_fee\<close> divides by it.
\<close>

lemma zero_amount_raises:
  assumes "h \<in> set [''6 months'', ''9 months'', ''1 year'']"
  shows "fee_calculator 0 h = Inl ZeroDivisionError"
  using assms
  by (auto simp: fee_calculator_def determine_tier_def installments_def
        truediv_def rate_entries months_entries)

subsection \<open>The saving of a longer horizon\<close>

text \<open>
  Claim C10. For every tier, every horizon among six months, nine months and one year
  and every positive amount, the monthly fee of the horizon is strictly below the monthly
  fee of the three months' plan; so the fee calculator returns a quote whose saving and
  saving percentage both exist and are strictly positive.
\<close>

theorem longer_horizon_saves:
  assumes "0 < a"
    and "h \<in> set [''6 months'', ''9 months'', ''1 year'']"
    and "t \<in> set [''10-50'', ''50-250'', ''250-500'', ''500-1000'', ''>1000'']"
  shows "(\<exists>r r3 m. get_fee_rate_by_tier t h = Inr r \<and>
            get_fee_rate_by_tier t ''3 months'' = Inr r3 \<and>
            subscript months_map h = Inr m \<and>
            (r / 100) * (a * 1000000) / m < (r3 / 100) * (a * 1000000) / 3) \<and>
         (\<exists>q s p. fee_calculator a h = Inr q \<and>
            current_monthly_fee q < reference_monthly_fee q \<and>
            saving q = Some s \<and> s = reference_monthly_fee q - current_monthly_fee q \<and> 0 < s \<and>
            saving_percent q = Some p \<and> p = s / reference_monthly_fee q * 100 \<and> 0 < p)"
proof
  have x: "0 < a * 1000000"
    using assms(1) by simp
  from monthly_rate_less [OF assms(3,2)] obtain r r3 m where
    "get_fee_rate_by_tier t h = Inr r" "get_fee_rate_by_tier t ''3 months'' = Inr r3"
    "subscript months_map h = Inr m" "r / m < r3 / 3"
    by blast
  with monthly_fee_less [OF _ x] show "\<exists>r r3 m. get_fee_rate_by_tier t h = Inr r \<and>
            get_fee_rate_by_tier t ''3 months'' = Inr r3 \<and>
            subscript months_map h = Inr m \<and>
            (r / 100) * (a * 1000000) / m < (r3 / 100) * (a * 1000000) / 3"
    by blast
next
  have x: "0 < a * 1000000"
    using assms(1) by simp
  from monthly_rate_less [OF determine_tier_cases assms(2)] obtain r r3 m where
    r: "get_fee_rate_by_tier (determine_tier a) h = Inr r"
    and r3: "get_fee_rate_by_tier (determine_tier a) ''3 months'' = Inr r3"
    and m: "subscript months_map h = Inr m" and pos: "0 < r3" and lt: "r / m < r3 / 3"
    by blast
  define reference where "reference = (r3 / 100) * (a * 1000000) / 3"
  define current where "current = (r / 100) * (a * 1000000) / m"
  have less: "current < reference"
    unfolding current_def reference_def by (rule monthly_fee_less [OF lt x])
  have rpos: "0 < reference"
    unfolding reference_def using pos x by simp
  have h3: "h \<noteq> ''3 months''"
    using assms(2) by auto
  have q: "fee_calculator a h =
      Inr \<lparr>fee_investment = a * 1000000, tier = determine_tier a, base_rate = r,
        num_installments = installments (determine_tier a) h,
        fee_rial = a * 1000000 * r / 100,
        each = (if installments (determine_tier a) h > 1
                then Some ((a * 1000000 * r / 100 + a * 1000000 * r / 100 * 0.05) /
                  of_nat (installments (determine_tier a) h)) else None),
        reference_monthly_fee = reference, current_monthly_fee = current,
        saving = Some (reference - current),
        saving_percent = Some ((reference - current) / reference * 100)\<rparr>"
    using assms(1) pos h3
    by (simp add: fee_calculator_def Let_def r r3 m truediv_def reference_def current_def)
  have "0 < (reference - current) / reference * 100"
    using less rpos by simp
  with q less show "\<exists>q s p. fee_calculator a h = Inr q \<and>
            current_monthly_fee q < reference_monthly_fee q \<and>
            saving q = Some s \<and> s = reference_monthly_fee q - current_monthly_fee q \<and> 0 < s \<and>
            saving_percent q = Some p \<and> p = s / reference_monthly_fee q * 100 \<and> 0 < p"
    by simp
qed

theorem longer_horizon_saves_witness:
  "fee_calculator 50 ''6 months'' =
     Inr \<lparr>fee_investment = 50000000, tier = ''10-50'', base_rate = 2.5,
        num_installments = 1, fee_rial = 1250000, each = None,
        reference_monthly_fee = 1000000 / 3, current_monthly_fee = 625000 / 3,
        saving = Some 125000, saving_percent = Some 37.5\<rparr> \<and>
   (625000 / 3 :: rat) < 1000000 / 3"
proof -
  have a: "(0::rat) < 50" by simp
  have h: "''6 months'' \<in> set [''6 months'', ''9 months'', ''1 year'']" by simp
  have t: "''10-50'' \<in> set [''10-50'', ''50-250'', ''250-500'', ''500-1000'', ''>1000'']" by simp
  have q: "fee_calculator 50 ''6 months'' =
     Inr \<lparr>fee_investment = 50000000, tier = ''10-50'', base_rate = 2.5,
        num_installments = 1, fee_rial = 1250000, each = None,
        reference_monthly_fee = 1000000 / 3, current_monthly_fee = 625000 / 3,
        saving = Some 125000, saving_percent = Some 37.5\<rparr>"
    by (simp add: fee_calculator_def determine_tier_def installments_def months_map_def
        truediv_def fee_defs)
  from longer_horizon_saves [OF a h t] q show ?thesis by simp
qed

section \<open>The wealth index\<close>

subsection \<open>Supporting lemmas\<close>

lemma weeks_positive:
  assumes "subscript weeks_map period = Inr weeks"
  shows "0 < weeks"
  using assms by (auto simp: subscript_def weeks_map_def split: if_splits)

lemma tail_empty_iff: "(tail weeks df = []) = (weeks = 0 \<or> df = [])"
  by (cases df) (auto simp: tail_def)

lemma wealth_df_empty:
  assumes "tail weeks df = []"
  shows "wealth_df df weeks i = Inl IndexError"
  using assms by (simp add: wealth_df_def iloc0_def)

lemma wealth_df_rows:
  assumes "tail weeks df \<noteq> []"
  shows "wealth_df df weeks i =
    Inr (map (\<lambda>row. map (\<lambda>x. cell_mul x (Fin i)) (map2 cell_div row (tail weeks df ! 0)))
           (tail weeks df))"
  using assms by (cases "tail weeks df") (simp_all add: wealth_df_def iloc0_def)

lemma wealth_df_nth:
  assumes "wealth_df df weeks i = Inr w"
    and "t < length (tail weeks df)"
    and "c < length (tail weeks df ! t)" and "c < length (tail weeks df ! 0)"
  shows "w ! t ! c = cell_mul (cell_div (tail weeks df ! t ! c) (tail weeks df ! 0 ! c)) (Fin i)"
proof -
  have ne: "tail weeks df \<noteq> []"
    using assms(2) by auto
  have "w = map (\<lambda>row. map (\<lambda>x. cell_mul x (Fin i)) (map2 cell_div row (tail weeks df ! 0)))
           (tail weeks df)"
    using assms(1) wealth_df_rows [OF ne, of i] by simp
  then show ?thesis
    using assms(2,3,4) by simp
qed

lemma tail_nth:
  assumes "weeks \<le> length df" and "t < weeks"
  shows "length (tail weeks df) = weeks" and "tail weeks df ! t = df ! (length df - weeks + t)"
  using assms by (simp_all add: tail_def)

lemma cell_mul_scale:
  "cell_mul x (Fin (k * i)) = cell_mul (Fin k) (cell_mul x (Fin i))"
  by (cases x) (auto simp: zero_less_mult_iff mult_less_0_iff)

lemma zero_baseline_cell:
  "cell_mul (cell_div x (Fin 0)) (Fin i) \<in> {PosInf, NegInf, NaN}"
  by (cases x) auto

text \<open>The rounding error of \<open>binary64\<close> and its propagation through products.\<close>

declare bit_length.simps [simp del]

lemma bit_length_bounds:
  "0 < n \<Longrightarrow> 2 ^ (bit_length n - 1) \<le> n \<and> n < 2 ^ bit_length n"
proof (induction n rule: bit_length.induct)
  case (1 n)
  show ?case
  proof (cases "n div 2 = 0")
    case True
    with \<open>0 < n\<close> have "n = 1" by presburger
    then show ?thesis
      by (simp add: bit_length.simps [of 1] bit_length.simps [of 0])
  next
    case False
    with \<open>0 < n\<close> have pos: "0 < n div 2" by presburger
    define b where "b = bit_length (n div 2)"
    have ih: "2 ^ (b - 1) \<le> n div 2 \<and> n div 2 < 2 ^ b"
      using "1.IH" \<open>0 < n\<close> pos by (simp add: b_def)
    have b1: "1 \<le> b"
    proof (rule ccontr)
      assume "\<not> 1 \<le> b"
      then have "b = 0" by simp
      with ih pos show False by simp
    qed
    have bn: "bit_length n = Suc b"
      using \<open>0 < n\<close> by (simp add: bit_length.simps [of n] b_def)
    have "(2::int) ^ b = 2 * 2 ^ (b - 1)"
      using b1 by (cases b) simp_all
    with ih have lo: "2 ^ b \<le> n"
      by presburger
    from ih have "n < 2 * 2 ^ b"
      by presburger
    with lo show ?thesis
      by (simp add: bn)
  qed
qed

lemma round_half_even_error: "\<bar>of_int (round_half_even y) - y\<bar> \<le> 1 / 2"
proof -
  define r where "r = y - of_int \<lfloor>y\<rfloor>"
  have r: "0 \<le> r" "r < 1"
    unfolding r_def by linarith+
  have y: "y = of_int \<lfloor>y\<rfloor> + r"
    by (simp add: r_def)
  have "round_half_even y = \<lfloor>y\<rfloor> \<and> r \<le> 1 / 2 \<or> round_half_even y = \<lfloor>y\<rfloor> + 1 \<and> 1 / 2 \<le> r"
    unfolding round_half_even_def Let_def r_def [symmetric] by auto
  then show ?thesis
  proof
    assume a: "round_half_even y = \<lfloor>y\<rfloor> \<and> r \<le> 1 / 2"
    then have "of_int (round_half_even y) - y = - r"
      using y by simp
    with a r show ?thesis by simp
  next
    assume a: "round_half_even y = \<lfloor>y\<rfloor> + 1 \<and> 1 / 2 \<le> r"
    then have "of_int (round_half_even y) - y = 1 - r"
      using y by simp
    with a r show ?thesis by simp
  qed
qed

lemma binary64_lower:
  assumes "x \<noteq> 0" and "quotient_of \<bar>x\<bar> = (p, q)"
  shows "(2 ^ bit_length p / 2 ^ bit_length q) / 2 \<le> \<bar>x\<bar>"
proof -
  have q: "0 < q"
    using assms(2) by (rule quotient_of_denom_pos)
  have x: "\<bar>x\<bar> = of_int p / of_int q"
    using assms(2) by (rule quotient_of_div)
  have p: "0 < p"
  proof -
    have "0 < \<bar>x\<bar>" using assms(1) by simp
    then have "0 < rat_of_int p / rat_of_int q" by (simp only: x)
    with q show ?thesis by (simp add: zero_less_divide_iff)
  qed
  from bit_length_bounds [OF p] have lo: "2 ^ (bit_length p - 1) \<le> p" by simp
  from bit_length_bounds [OF q] have hi: "q < 2 ^ bit_length q" by simp
  have bp: "1 \<le> bit_length p"
    using p by (simp add: bit_length.simps [of p])
  have "(2::rat) ^ bit_length p = 2 * 2 ^ (bit_length p - 1)"
    using bp by (cases "bit_length p") simp_all
  then have "(2 ^ bit_length p / 2 ^ bit_length q) / 2 = (2::rat) ^ (bit_length p - 1) / 2 ^ bit_length q"
    by simp
  also have "\<dots> \<le> of_int p / 2 ^ bit_length q"
  proof -
    have "rat_of_int (2 ^ (bit_length p - 1)) \<le> of_int p"
      using lo by (simp only: of_int_le_iff)
    then show ?thesis
      by (simp add: divide_right_mono)
  qed
  also have "\<dots> \<le> of_int p / of_int q"
  proof -
    have "rat_of_int q < of_int (2 ^ bit_length q)"
      using hi by (simp only: of_int_less_iff)
    then have "rat_of_int q \<le> 2 ^ bit_length q" by simp
    moreover have "0 < rat_of_int q" using q by simp
    moreover have "0 \<le> rat_of_int p" using p by simp
    ultimately show ?thesis
      by (simp add: divide_left_mono)
  qed
  finally show ?thesis
    by (simp only: x)
qed

lemma binary64_close: "close (1 / 2 ^ 53) (binary64 x) x"
proof (cases "x = 0")
  case True
  then show ?thesis by (simp add: close_def binary64_def)
next
  case False
  obtain p q where pq: "quotient_of \<bar>x\<bar> = (p, q)"
    by (cases "quotient_of \<bar>x\<bar>")
  define hi :: rat where "hi = 2 ^ bit_length p / 2 ^ bit_length q"
  define pw where "pw = (if hi \<le> \<bar>x\<bar> then hi else hi / 2)"
  define ulp where "ulp = pw / 2 ^ 52"
  define m where "m = round_half_even (\<bar>x\<bar> / ulp)"
  have b: "binary64 x = sgn x * of_int m * ulp"
    using False by (simp add: binary64_def pq Let_def hi_def pw_def ulp_def m_def)
  have hipos: "0 < hi"
    by (simp add: hi_def)
  then have pwpos: "0 < pw"
    by (simp add: pw_def)
  then have upos: "0 < ulp"
    by (simp add: ulp_def)
  have pwle: "pw \<le> \<bar>x\<bar>"
    using binary64_lower [OF False pq] by (simp add: pw_def hi_def)
  have "x = sgn x * \<bar>x\<bar>"
    by (simp add: sgn_mult_abs)
  then have "binary64 x - x = sgn x * (of_int m * ulp - \<bar>x\<bar>)"
    by (simp add: b algebra_simps)
  then have "\<bar>binary64 x - x\<bar> = \<bar>of_int m * ulp - \<bar>x\<bar>\<bar>"
    using False by (simp add: abs_mult abs_sgn_eq)
  also have "of_int m * ulp - \<bar>x\<bar> = (of_int m - \<bar>x\<bar> / ulp) * ulp"
    using upos by (simp add: algebra_simps)
  also have "\<bar>(of_int m - \<bar>x\<bar> / ulp) * ulp\<bar> \<le> (1 / 2) * ulp"
    using upos round_half_even_error [of "\<bar>x\<bar> / ulp"]
    by (simp add: abs_mult m_def mult_right_mono)
  also have "(1 / 2) * ulp = pw / 2 ^ 53"
    by (simp add: ulp_def)
  also have "\<dots> \<le> \<bar>x\<bar> / 2 ^ 53"
    using pwle by (simp add: divide_right_mono)
  finally show ?thesis
    by (simp add: close_def)
qed

lemma unit_roundoff_bounds: "0 \<le> unit_roundoff" "unit_roundoff < 1"
  by (simp_all add: unit_roundoff_def)

lemma binary64_roundoff: "close unit_roundoff (binary64 x) x"
  unfolding unit_roundoff_def by (rule binary64_close)

lemma close_mono: "close r y x \<Longrightarrow> r \<le> s \<Longrightarrow> close s y x"
proof -
  assume a: "close r y x" and b: "r \<le> s"
  have "r * \<bar>x\<bar> \<le> s * \<bar>x\<bar>"
    using b by (simp add: mult_right_mono)
  with a show ?thesis
    by (simp add: close_def)
qed

lemma close_sign:
  assumes "close r y x" and "r < 1"
  shows "(0 < y) = (0 < x)" and "(y < 0) = (x < 0)"
proof -
  have "\<bar>y - x\<bar> < \<bar>x\<bar> \<or> x = 0 \<and> y = 0"
  proof (cases "x = 0")
    case True
    with assms(1) show ?thesis by (simp add: close_def)
  next
    case False
    then have "r * \<bar>x\<bar> < 1 * \<bar>x\<bar>"
      using assms(2) by (simp add: mult_strict_right_mono)
    with assms(1) show ?thesis by (simp add: close_def)
  qed
  then show "(0 < y) = (0 < x)" and "(y < 0) = (x < 0)"
    by (auto simp: abs_if split: if_splits)
qed

lemma close_mult:
  assumes "close r y x" and "close s v w" and "0 \<le> r" and "0 \<le> s"
  shows "close (r + s + r * s) (y * v) (x * w)"
proof -
  define d where "d = y - x"
  define e where "e = v - w"
  have d: "\<bar>d\<bar> \<le> r * \<bar>x\<bar>" and e: "\<bar>e\<bar> \<le> s * \<bar>w\<bar>"
    using assms(1,2) by (simp_all add: close_def d_def e_def)
  have "y * v - x * w = x * e + d * w + d * e"
    by (simp add: d_def e_def algebra_simps)
  then have "\<bar>y * v - x * w\<bar> \<le> \<bar>x * e\<bar> + \<bar>d * w\<bar> + \<bar>d * e\<bar>"
    by linarith
  also have "\<dots> = \<bar>x\<bar> * \<bar>e\<bar> + \<bar>d\<bar> * \<bar>w\<bar> + \<bar>d\<bar> * \<bar>e\<bar>"
    by (simp add: abs_mult)
  also have "\<dots> \<le> \<bar>x\<bar> * (s * \<bar>w\<bar>) + (r * \<bar>x\<bar>) * \<bar>w\<bar> + (r * \<bar>x\<bar>) * (s * \<bar>w\<bar>)"
    using d e assms(3,4)
    by (intro add_mono mult_mono order_refl) simp_all
  also have "\<dots> = (r + s + r * s) * \<bar>x * w\<bar>"
    by (simp add: abs_mult algebra_simps)
  finally show ?thesis
    by (simp add: close_def)
qed

lemma close_round:
  assumes "close r y x" and "0 \<le> r"
  shows "close (r + unit_roundoff + r * (unit_roundoff)) (binary64 y) x"
proof -
  have y: "\<bar>y\<bar> \<le> \<bar>x\<bar> + r * \<bar>x\<bar>"
  proof -
    have "\<bar>y\<bar> \<le> \<bar>x\<bar> + \<bar>y - x\<bar>"
      by simp
    with assms(1) show ?thesis
      by (simp add: close_def)
  qed
  have "\<bar>binary64 y - x\<bar> \<le> \<bar>binary64 y - y\<bar> + \<bar>y - x\<bar>"
    by simp
  also have "\<dots> \<le> (unit_roundoff) * \<bar>y\<bar> + r * \<bar>x\<bar>"
    using binary64_roundoff [of y] assms(1) by (simp add: close_def)
  also have "\<dots> \<le> (unit_roundoff) * (\<bar>x\<bar> + r * \<bar>x\<bar>) + r * \<bar>x\<bar>"
    using y unit_roundoff_bounds(1) by (simp add: mult_left_mono)
  also have "\<dots> = (r + unit_roundoff + r * (unit_roundoff)) * \<bar>x\<bar>"
    by (simp add: algebra_simps)
  finally show ?thesis
    by (simp add: close_def)
qed

lemma cell_close_mono: "cell_close r y x \<Longrightarrow> r \<le> s \<Longrightarrow> cell_close s y x"
  by (auto simp: cell_close_def close_mono split: cell.splits)

lemma cell_close_round_cell: "cell_close (unit_roundoff) (round_cell x) x"
  by (cases x) (simp_all add: cell_close_def round_cell_def binary64_roundoff)

lemma cell_close_round:
  assumes "cell_close r y x" and "0 \<le> r"
  shows "cell_close (r + unit_roundoff + r * (unit_roundoff)) (round_cell y) x"
  using assms by (auto simp: cell_close_def round_cell_def close_round split: cell.splits)

lemma cell_close_mul_right:
  assumes "cell_close r y x" and "close s j' j" and "0 \<le> r" and "0 \<le> s" and "s < 1"
  shows "cell_close (r + s + r * s) (cell_mul y (Fin j')) (cell_mul x (Fin j))"
proof (cases x)
  case (Fin a)
  with assms(1) obtain b where y: "y = Fin b" and c: "close r b a"
    by (auto simp: cell_close_def split: cell.splits)
  show ?thesis
    using close_mult [OF c assms(2,3,4)] by (simp add: Fin y cell_close_def)
next
  case PosInf
  with assms(1) have "y = PosInf" by (simp add: cell_close_def)
  with PosInf close_sign [OF assms(2,5)] show ?thesis
    by (simp add: cell_close_def)
next
  case NegInf
  with assms(1) have "y = NegInf" by (simp add: cell_close_def)
  with NegInf close_sign [OF assms(2,5)] show ?thesis
    by (simp add: cell_close_def)
next
  case NaN
  with assms(1) have "y = NaN" by (simp add: cell_close_def)
  with NaN show ?thesis
    by (simp add: cell_close_def)
qed

lemma cell_close_mul_left:
  assumes "cell_close r y x" and "close s k' k" and "0 \<le> r" and "0 \<le> s" and "s < 1"
  shows "cell_close (s + r + s * r) (cell_mul (Fin k') y) (cell_mul (Fin k) x)"
proof (cases x)
  case (Fin a)
  with assms(1) obtain b where y: "y = Fin b" and c: "close r b a"
    by (auto simp: cell_close_def split: cell.splits)
  show ?thesis
    using close_mult [OF assms(2) c assms(4,3)] by (simp add: Fin y cell_close_def)
next
  case PosInf
  with assms(1) have "y = PosInf" by (simp add: cell_close_def)
  with PosInf close_sign [OF assms(2,5)] show ?thesis
    by (simp add: cell_close_def)
next
  case NegInf
  with assms(1) have "y = NegInf" by (simp add: cell_close_def)
  with NegInf close_sign [OF assms(2,5)] show ?thesis
    by (simp add: cell_close_def)
next
  case NaN
  with assms(1) have "y = NaN" by (simp add: cell_close_def)
  with NaN show ?thesis
    by (cases "Fin k'") (simp_all add: cell_close_def)
qed

text \<open>One cell of the wealth index in binary64 against its exact value.\<close>

lemma wealth_cell_close:
  "cell_close (1 / 2 ^ 51) (round_cell (cell_mul (round_cell x) (round_cell (Fin j)))) (cell_mul x (Fin j))"
proof -
  note u = unit_roundoff_bounds
  have r: "round_cell (Fin j) = Fin (binary64 j)"
    by (simp add: round_cell_def)
  have "cell_close (unit_roundoff + unit_roundoff + unit_roundoff * unit_roundoff)
      (cell_mul (round_cell x) (Fin (binary64 j))) (cell_mul x (Fin j))"
    by (rule cell_close_mul_right [OF cell_close_round_cell binary64_roundoff u(1) u(1) u(2)])
  then have "cell_close (unit_roundoff + unit_roundoff + unit_roundoff * unit_roundoff + unit_roundoff +
      (unit_roundoff + unit_roundoff + unit_roundoff * unit_roundoff) * unit_roundoff)
      (round_cell (cell_mul (round_cell x) (Fin (binary64 j)))) (cell_mul x (Fin j))"
    by (rule cell_close_round) (simp add: u(1))
  then show ?thesis
    unfolding r by (rule cell_close_mono) (simp add: unit_roundoff_def)
qed

lemma scaled_cell_close:
  assumes "cell_close (1 / 2 ^ 51) y x"
  shows "cell_close (1 / 2 ^ 50) (round_cell (cell_mul (round_cell (Fin k)) y)) (cell_mul (Fin k) x)"
proof -
  note u = unit_roundoff_bounds
  have r: "round_cell (Fin k) = Fin (binary64 k)"
    by (simp add: round_cell_def)
  have "cell_close (unit_roundoff + 1 / 2 ^ 51 + unit_roundoff * (1 / 2 ^ 51))
      (cell_mul (Fin (binary64 k)) y) (cell_mul (Fin k) x)"
    by (rule cell_close_mul_left [OF assms binary64_roundoff _ u(1) u(2)]) simp
  then have "cell_close (unit_roundoff + 1 / 2 ^ 51 + unit_roundoff * (1 / 2 ^ 51) + unit_roundoff +
      (unit_roundoff + 1 / 2 ^ 51 + unit_roundoff * (1 / 2 ^ 51)) * unit_roundoff)
      (round_cell (cell_mul (Fin (binary64 k)) y)) (cell_mul (Fin k) x)"
    by (rule cell_close_round) (simp add: u(1))
  then show ?thesis
    unfolding r by (rule cell_close_mono) (simp add: unit_roundoff_def)
qed

lemma wealth_df64_empty:
  assumes "tail weeks df = []"
  shows "wealth_df64 df weeks i = Inl IndexError"
  using assms by (simp add: wealth_df64_def iloc0_def)

lemma wealth_df64_rows:
  assumes "tail weeks df \<noteq> []"
  shows "wealth_df64 df weeks i =
    Inr (map (\<lambda>row. map (\<lambda>x. round_cell (cell_mul x (round_cell (Fin i))))
                      (map round_cell (map2 cell_div row (tail weeks df ! 0))))
           (tail weeks df))"
  using assms by (cases "tail weeks df") (simp_all add: wealth_df64_def iloc0_def)

lemma wealth_df64_nth:
  assumes "wealth_df64 df weeks i = Inr w"
    and "t < length (tail weeks df)"
    and "c < length (tail weeks df ! t)" and "c < length (tail weeks df ! 0)"
  shows "w ! t ! c =
    round_cell (cell_mul (round_cell (cell_div (tail weeks df ! t ! c) (tail weeks df ! 0 ! c)))
      (round_cell (Fin i)))"
    and "t < length w" and "c < length (w ! t)"
proof -
  have ne: "tail weeks df \<noteq> []"
    using assms(2) by auto
  have w: "w = map (\<lambda>row. map (\<lambda>x. round_cell (cell_mul x (round_cell (Fin i))))
                      (map round_cell (map2 cell_div row (tail weeks df ! 0))))
           (tail weeks df)"
    using assms(1) wealth_df64_rows [OF ne, of i] by simp
  show "w ! t ! c =
    round_cell (cell_mul (round_cell (cell_div (tail weeks df ! t ! c) (tail weeks df ! 0 ! c)))
      (round_cell (Fin i)))"
    and "t < length w" and "c < length (w ! t)"
    using assms(2,3,4) by (simp_all add: w)
qed

lemma wealth_df64_shape:
  assumes "wealth_df64 df weeks i = Inr w"
  shows "map length w = map (\<lambda>row. min (length row) (length (tail weeks df ! 0))) (tail weeks df)"
proof (cases "tail weeks df = []")
  case True
  with assms show ?thesis
    by (simp add: wealth_df64_empty)
next
  case False
  from assms show ?thesis
    unfolding wealth_df64_rows [OF False] by (auto simp: comp_def)
qed

lemma scale64_nth:
  assumes "t < length w" and "c < length (w ! t)"
  shows "scale64 k w ! t ! c = round_cell (cell_mul (round_cell (Fin k)) (w ! t ! c))"
  using assms by (simp add: scale64_def)

lemma scale64_shape: "map length (scale64 k w) = map length w"
  by (simp add: scale64_def comp_def)

subsection \<open>The formula of the wealth index\<close>

text \<open>
  Claim C3 says that the first row of the wealth index is the initial investment for
  every competitor. It is not where the first retained value of a column is missing:
  the whole column of the output is \<^verbatim>\<open>nan\<close> then, the first row included.
\<close>

theorem wealth_first_row_counterexample:
  "wealth_df [[Fin 7, Fin 2], [NaN, Fin 2], [Fin 5, Fin 3]] 2 100 =
     Inr [[NaN, Fin 100], [NaN, Fin 150]] \<and> NaN \<noteq> Fin 100"
  by (simp add: wealth_df_def tail_def iloc0_def)

text \<open>
  Claim C3, as amended. When the wealth index exists, its cell at a retained row \<open>t\<close>
  and a column \<open>c\<close> is the raw cell at \<open>(t, c)\<close> divided by the cell of the column in the
  first retained row, times the initial investment; on finite numbers with a first value
  other than zero this is the number \<open>a / b * i\<close>. So the first row is the initial
  investment for every competitor whose first retained value is a finite number other
  than zero. The retained rows are the last \<open>weeks\<close> rows of the frame.
\<close>

theorem wealth_formula:
  assumes "wealth_df df weeks i = Inr w"
    and "t < length (tail weeks df)"
    and "c < length (tail weeks df ! t)" and "c < length (tail weeks df ! 0)"
  shows "w ! t ! c = cell_mul (cell_div (tail weeks df ! t ! c) (tail weeks df ! 0 ! c)) (Fin i) \<and>
    (\<forall>a b. tail weeks df ! t ! c = Fin a \<and> tail weeks df ! 0 ! c = Fin b \<and> b \<noteq> 0 \<longrightarrow>
       w ! t ! c = Fin (a / b * i)) \<and>
    (\<forall>b. tail weeks df ! 0 ! c = Fin b \<and> b \<noteq> 0 \<longrightarrow> w ! 0 ! c = Fin i) \<and>
    length w = length (tail weeks df) \<and>
    (weeks \<le> length df \<longrightarrow>
       length w = weeks \<and> tail weeks df ! t = df ! (length df - weeks + t))"
proof -
  have ne: "tail weeks df \<noteq> []" and z: "0 < length (tail weeks df)"
    using assms(2) by auto
  have cell: "w ! t ! c = cell_mul (cell_div (tail weeks df ! t ! c) (tail weeks df ! 0 ! c)) (Fin i)"
    by (rule wealth_df_nth [OF assms])
  have first: "w ! 0 ! c = cell_mul (cell_div (tail weeks df ! 0 ! c) (tail weeks df ! 0 ! c)) (Fin i)"
    by (rule wealth_df_nth [OF assms(1) z assms(4) assms(4)])
  have len: "length w = length (tail weeks df)"
    using assms(1) wealth_df_rows [OF ne, of i] by auto
  have win: "length w = weeks \<and> tail weeks df ! t = df ! (length df - weeks + t)"
    if "weeks \<le> length df"
  proof -
    have l: "length (tail weeks df) = weeks"
      using that by (simp add: tail_def)
    with assms(2) have "t < weeks" by simp
    with that l len show ?thesis
      by (simp add: tail_nth)
  qed
  from cell first len win show ?thesis
    by auto
qed

theorem wealth_formula_witness:
  "wealth_df [[Fin 1, Fin 2], [Fin 2, Fin 4], [Fin 4, Fin 3]] 2 100 =
      Inr [[Fin 100, Fin 100], [Fin 200, Fin 75]] \<and>
   tail 2 [[Fin 1, Fin 2], [Fin 2, Fin 4], [Fin 4, Fin 3]] = [[Fin 2, Fin 4], [Fin 4, Fin 3 :: cell]] \<and>
   [[Fin 100, Fin 100], [Fin 200, Fin 75]] ! 1 ! 0 = Fin (4 / 2 * 100)"
proof -
  let ?df = "[[Fin 1, Fin 2], [Fin 2, Fin 4], [Fin 4, Fin 3]]"
  have tl: "tail 2 ?df = [[Fin 2, Fin 4], [Fin 4, Fin 3]]"
    by (simp add: tail_def)
  have w: "wealth_df ?df 2 100 = Inr [[Fin 100, Fin 100], [Fin 200, Fin 75]]"
    by (simp add: wealth_df_def tl iloc0_def)
  have t: "1 < length (tail 2 ?df)" and c: "0 < length (tail 2 ?df ! 1)"
    and c0: "0 < length (tail 2 ?df ! 0)"
    by (simp_all add: tl)
  from wealth_formula [OF w t c c0] w tl show ?thesis
    by simp
qed

subsection \<open>Scaling the initial investment\<close>

text \<open>
  Claim C7 says that the wealth index for the initial investment \<open>k * i\<close> is exactly \<open>k\<close>
  times the wealth index for \<open>i\<close>. In binary64 it is not: with the prices 3 and 1, one
  month, \<open>i\<close> of 10 million and \<open>k = 5\<close>, the second row is \<^verbatim>\<open>1/3 * 50000000\<close>, which is
  \<^verbatim>\<open>16666666.666666666\<close>, on one side and \<^verbatim>\<open>5 * (1/3 * 10000000)\<close>, which is
  \<^verbatim>\<open>16666666.666666664\<close>, on the other.
\<close>

theorem wealth_scale_binary64_counterexample:
  "wealth_df64 [[Fin 3], [Fin 1]] 4 (5 * 10000000) =
     Inr [[Fin 50000000], [Fin (8947848533333333 / 536870912)]] \<and>
   wealth_df64 [[Fin 3], [Fin 1]] 4 10000000 =
     Inr [[Fin 10000000], [Fin (3579139413333333 / 1073741824)]] \<and>
   scale64 5 [[Fin 10000000], [Fin (3579139413333333 / 1073741824)]] =
     [[Fin 50000000], [Fin (2236962133333333 / 134217728)]] \<and>
   (8947848533333333 / 536870912 :: rat) \<noteq> 2236962133333333 / 134217728"
proof -
  have r1: "binary64 1 = 1" by code_simp
  have r2: "binary64 (1 / 3) = 6004799503160661 / 18014398509481984" by code_simp
  have r3: "binary64 50000000 = 50000000" by code_simp
  have r4: "binary64 10000000 = 10000000" by code_simp
  have r5: "binary64 5 = 5" by code_simp
  have r6: "binary64 (6004799503160661 / 18014398509481984 * 50000000) =
      8947848533333333 / 536870912" by code_simp
  have r7: "binary64 (6004799503160661 / 18014398509481984 * 10000000) =
      3579139413333333 / 1073741824" by code_simp
  have r8: "binary64 (5 * (3579139413333333 / 1073741824)) = 2236962133333333 / 134217728"
    by code_simp
  have tl: "tail 4 [[Fin 3], [Fin 1]] = [[Fin 3], [Fin 1 :: cell]]"
    by (simp add: tail_def)
  have a: "wealth_df64 [[Fin 3], [Fin 1]] 4 (5 * 10000000) =
     Inr [[Fin 50000000], [Fin (8947848533333333 / 536870912)]]"
    using r6 by (simp add: wealth_df64_def tl iloc0_def round_cell_def r1 r2 r3)
  have b: "wealth_df64 [[Fin 3], [Fin 1]] 4 10000000 =
     Inr [[Fin 10000000], [Fin (3579139413333333 / 1073741824)]]"
    using r7 by (simp add: wealth_df64_def tl iloc0_def round_cell_def r1 r2 r4)
  have c: "scale64 5 [[Fin 10000000], [Fin (3579139413333333 / 1073741824)]] =
     [[Fin 50000000], [Fin (2236962133333333 / 134217728)]]"
    using r8 by (simp add: scale64_def round_cell_def r5 r3)
  have d: "(8947848533333333 / 536870912 :: rat) \<noteq> 2236962133333333 / 134217728"
    by simp
  from a b c d show ?thesis
    by blast
qed

text \<open>
  Claim C7, as amended. The wealth index is scale-invariant in the initial investment up
  to rounding. For every frame, every window length \<open>weeks\<close>, every positive number \<open>k\<close> and
  every initial investment \<open>i\<close>, the wealth index for \<open>k * i\<close> and \<open>k\<close> times the wealth index
  for \<open>i\<close>, both computed in binary64, fail together when no row is retained, and have the
  same shape otherwise. Where the exact value \<open>k * (price / first * i)\<close> of a cell is an
  infinity or \<^verbatim>\<open>nan\<close>, both cells are that value; where it is finite, each of the two
  cells is within a relative error of \<open>1 / 2 ^ 50\<close> of it.
\<close>

theorem wealth_scale_rounding:
  assumes "0 < k"
  shows "(tail weeks df = [] \<longrightarrow>
            wealth_df64 df weeks (k * i) = Inl IndexError \<and>
            wealth_df64 df weeks i = Inl IndexError) \<and>
         (tail weeks df \<noteq> [] \<longrightarrow>
            (\<exists>w1 w2. wealth_df64 df weeks (k * i) = Inr w1 \<and>
               wealth_df64 df weeks i = Inr w2 \<and>
               map length w1 = map length (scale64 k w2) \<and>
               (\<forall>t c. t < length (tail weeks df) \<and> c < length (tail weeks df ! t) \<and>
                       c < length (tail weeks df ! 0) \<longrightarrow>
                  cell_close (1 / 2 ^ 50) (w1 ! t ! c)
                    (cell_mul (Fin k)
                       (cell_mul (cell_div (tail weeks df ! t ! c) (tail weeks df ! 0 ! c)) (Fin i))) \<and>
                  cell_close (1 / 2 ^ 50) (scale64 k w2 ! t ! c)
                    (cell_mul (Fin k)
                       (cell_mul (cell_div (tail weeks df ! t ! c) (tail weeks df ! 0 ! c)) (Fin i))))))"
proof (intro conjI impI)
  assume "tail weeks df = []"
  then show "wealth_df64 df weeks (k * i) = Inl IndexError"
    and "wealth_df64 df weeks i = Inl IndexError"
    by (simp_all add: wealth_df64_empty)
next
  assume ne: "tail weeks df \<noteq> []"
  obtain w1 where w1: "wealth_df64 df weeks (k * i) = Inr w1"
    using wealth_df64_rows [OF ne] by blast
  obtain w2 where w2: "wealth_df64 df weeks i = Inr w2"
    using wealth_df64_rows [OF ne] by blast
  have shape: "map length w1 = map length (scale64 k w2)"
    by (simp add: scale64_shape wealth_df64_shape [OF w1] wealth_df64_shape [OF w2])
  have cells: "cell_close (1 / 2 ^ 50) (w1 ! t ! c)
        (cell_mul (Fin k)
           (cell_mul (cell_div (tail weeks df ! t ! c) (tail weeks df ! 0 ! c)) (Fin i))) \<and>
      cell_close (1 / 2 ^ 50) (scale64 k w2 ! t ! c)
        (cell_mul (Fin k)
           (cell_mul (cell_div (tail weeks df ! t ! c) (tail weeks df ! 0 ! c)) (Fin i)))"
    if h: "t < length (tail weeks df) \<and> c < length (tail weeks df ! t) \<and>
           c < length (tail weeks df ! 0)" for t c
  proof -
    let ?x = "cell_div (tail weeks df ! t ! c) (tail weeks df ! 0 ! c)"
    from h have t: "t < length (tail weeks df)" and c: "c < length (tail weeks df ! t)"
      and c0: "c < length (tail weeks df ! 0)"
      by simp_all
    have e: "cell_mul (Fin k) (cell_mul ?x (Fin i)) = cell_mul ?x (Fin (k * i))"
      by (rule cell_mul_scale [symmetric])
    have "cell_close (1 / 2 ^ 51) (w1 ! t ! c) (cell_mul ?x (Fin (k * i)))"
      unfolding wealth_df64_nth(1) [OF w1 t c c0] by (rule wealth_cell_close)
    then have l: "cell_close (1 / 2 ^ 50) (w1 ! t ! c) (cell_mul ?x (Fin (k * i)))"
      by (rule cell_close_mono) simp
    have "cell_close (1 / 2 ^ 51) (w2 ! t ! c) (cell_mul ?x (Fin i))"
      unfolding wealth_df64_nth(1) [OF w2 t c c0] by (rule wealth_cell_close)
    then have r: "cell_close (1 / 2 ^ 50) (scale64 k w2 ! t ! c) (cell_mul (Fin k) (cell_mul ?x (Fin i)))"
      unfolding scale64_nth [OF wealth_df64_nth(2,3) [OF w2 t c c0]]
      by (rule scaled_cell_close)
    from l r show ?thesis
      by (simp only: e simp_thms)
  qed
  from w1 w2 shape cells show "\<exists>w1 w2. wealth_df64 df weeks (k * i) = Inr w1 \<and>
               wealth_df64 df weeks i = Inr w2 \<and>
               map length w1 = map length (scale64 k w2) \<and>
               (\<forall>t c. t < length (tail weeks df) \<and> c < length (tail weeks df ! t) \<and>
                       c < length (tail weeks df ! 0) \<longrightarrow>
                  cell_close (1 / 2 ^ 50) (w1 ! t ! c)
                    (cell_mul (Fin k)
                       (cell_mul (cell_div (tail weeks df ! t ! c) (tail weeks df ! 0 ! c)) (Fin i))) \<and>
                  cell_close (1 / 2 ^ 50) (scale64 k w2 ! t ! c)
                    (cell_mul (Fin k)
                       (cell_mul (cell_div (tail weeks df ! t ! c) (tail weeks df ! 0 ! c)) (Fin i))))"
    by blast
qed

theorem wealth_scale_rounding_witness:
  "(0::rat) < 5 \<and> tail 4 [[Fin 3], [Fin 1 :: cell]] = [[Fin 3], [Fin 1]] \<and>
   (\<exists>w1 w2. wealth_df64 [[Fin 3], [Fin 1]] 4 (5 * 10000000) = Inr w1 \<and>
      wealth_df64 [[Fin 3], [Fin 1]] 4 10000000 = Inr w2 \<and>
      cell_close (1 / 2 ^ 50) (w1 ! 1 ! 0) (Fin (50000000 / 3)) \<and>
      cell_close (1 / 2 ^ 50) (scale64 5 w2 ! 1 ! 0) (Fin (50000000 / 3)))"
proof -
  have k: "(0::rat) < 5" by simp
  have tl: "tail 4 [[Fin 3], [Fin 1 :: cell]] = [[Fin 3], [Fin 1]]"
    by (simp add: tail_def)
  from wealth_scale_rounding [OF k, of 4 "[[Fin 3], [Fin 1]]" 10000000]
  obtain w1 w2 where w1: "wealth_df64 [[Fin 3], [Fin 1]] 4 (5 * 10000000) = Inr w1"
    and w2: "wealth_df64 [[Fin 3], [Fin 1]] 4 10000000 = Inr w2"
    and c: "\<forall>t c. t < length (tail 4 [[Fin 3], [Fin 1 :: cell]]) \<and>
               c < length (tail 4 [[Fin 3], [Fin 1 :: cell]] ! t) \<and>
               c < length (tail 4 [[Fin 3], [Fin 1 :: cell]] ! 0) \<longrightarrow>
        cell_close (1 / 2 ^ 50) (w1 ! t ! c)
          (cell_mul (Fin 5)
             (cell_mul (cell_div (tail 4 [[Fin 3], [Fin 1 :: cell]] ! t ! c)
                (tail 4 [[Fin 3], [Fin 1 :: cell]] ! 0 ! c)) (Fin 10000000))) \<and>
        cell_close (1 / 2 ^ 50) (scale64 5 w2 ! t ! c)
          (cell_mul (Fin 5)
             (cell_mul (cell_div (tail 4 [[Fin 3], [Fin 1 :: cell]] ! t ! c)
                (tail 4 [[Fin 3], [Fin 1 :: cell]] ! 0 ! c)) (Fin 10000000)))"
    unfolding tl by auto
  from c [rule_format, of 1 0]
  have "cell_close (1 / 2 ^ 50) (w1 ! 1 ! 0) (Fin (50000000 / 3)) \<and>
      cell_close (1 / 2 ^ 50) (scale64 5 w2 ! 1 ! 0) (Fin (50000000 / 3))"
    unfolding tl by simp
  with k tl w1 w2 show ?thesis
    by blast
qed

subsection \<open>Frames without rows and first values that are zero\<close>

text \<open>
  Claim C8 says that a first retained value of zero makes the normalisation fail, and
  that no such failure becomes an infinity or \<^verbatim>\<open>nan\<close> in the output. The script divides
  all the same: with a first value of zero in the first column, the wealth index exists
  and that column holds \<^verbatim>\<open>nan\<close> and \<^verbatim>\<open>inf\<close>.
\<close>

theorem wealth_zero_baseline_counterexample:
  "wealth_df [[Fin 0, Fin 2], [Fin 5, Fin 3]] 13 100 = Inr [[NaN, Fin 100], [PosInf, Fin 150]]"
  by (simp add: wealth_df_def tail_def iloc0_def)

text \<open>
  Claim C8, as amended. When no row is retained, the normalisation fails with Python's
  \<^verbatim>\<open>IndexError\<close>, raised by \<^verbatim>\<open>.iloc[0]\<close>. When a row is retained it never fails: where the
  first retained value of a column is zero, every cell of that column of the wealth
  index is an infinity or \<^verbatim>\<open>nan\<close>.
\<close>

theorem wealth_failures:
  "(tail weeks df = [] \<longrightarrow> wealth_df df weeks i = Inl IndexError) \<and>
   (tail weeks df \<noteq> [] \<longrightarrow>
      (\<exists>w. wealth_df df weeks i = Inr w \<and>
         (\<forall>t c. t < length (tail weeks df) \<and> c < length (tail weeks df ! t) \<and>
                 c < length (tail weeks df ! 0) \<and> tail weeks df ! 0 ! c = Fin 0 \<longrightarrow>
                 w ! t ! c \<in> {PosInf, NegInf, NaN})))"
proof (intro conjI impI)
  assume "tail weeks df = []"
  then show "wealth_df df weeks i = Inl IndexError"
    by (rule wealth_df_empty)
next
  assume ne: "tail weeks df \<noteq> []"
  define w where "w = map (\<lambda>row. map (\<lambda>x. cell_mul x (Fin i)) (map2 cell_div row (tail weeks df ! 0)))
           (tail weeks df)"
  have r: "wealth_df df weeks i = Inr w"
    unfolding w_def by (rule wealth_df_rows [OF ne])
  have "w ! t ! c \<in> {PosInf, NegInf, NaN}"
    if "t < length (tail weeks df) \<and> c < length (tail weeks df ! t) \<and>
        c < length (tail weeks df ! 0) \<and> tail weeks df ! 0 ! c = Fin 0" for t c
  proof -
    from that have "w ! t ! c = cell_mul (cell_div (tail weeks df ! t ! c) (Fin 0)) (Fin i)"
      using wealth_df_nth [OF r, of t c] by simp
    then show ?thesis
      by (simp only: zero_baseline_cell)
  qed
  with r show "\<exists>w. wealth_df df weeks i = Inr w \<and>
         (\<forall>t c. t < length (tail weeks df) \<and> c < length (tail weeks df ! t) \<and>
                 c < length (tail weeks df ! 0) \<and> tail weeks df ! 0 ! c = Fin 0 \<longrightarrow>
                 w ! t ! c \<in> {PosInf, NegInf, NaN})"
    by blast
qed

theorem wealth_failures_witness:
  "tail 52 ([] :: cell list list) = [] \<and> wealth_df [] 52 100 = Inl IndexError \<and>
   tail 52 [[Fin 0], [Fin (- 1)]] = [[Fin 0], [Fin (- 1)]] \<and>
   (\<exists>w. wealth_df [[Fin 0], [Fin (- 1)]] 52 100 = Inr w \<and> w ! 1 ! 0 \<in> {PosInf, NegInf, NaN})"
proof -
  have e: "tail 52 ([] :: cell list list) = []"
    by (simp add: tail_def)
  have tl: "tail 52 [[Fin 0], [Fin (- 1)]] = [[Fin 0], [Fin (- 1)]]"
    by (simp add: tail_def)
  from wealth_failures [of 52 "[]" 100] e
  have a: "wealth_df [] 52 100 = Inl IndexError"
    by simp
  from wealth_failures [of 52 "[[Fin 0], [Fin (- 1)]]" 100]
  obtain w where w: "wealth_df [[Fin 0], [Fin (- 1)]] 52 100 = Inr w"
    and c: "\<forall>t c. t < length (tail 52 [[Fin 0], [Fin (- 1)]]) \<and>
               c < length (tail 52 [[Fin 0], [Fin (- 1)]] ! t) \<and>
               c < length (tail 52 [[Fin 0], [Fin (- 1)]] ! 0) \<and>
               tail 52 [[Fin 0], [Fin (- 1)]] ! 0 ! c = Fin 0 \<longrightarrow>
               w ! t ! c \<in> {PosInf, NegInf, NaN}"
    unfolding tl by auto
  from c [rule_format, of 1 0] have "w ! 1 ! 0 \<in> {PosInf, NegInf, NaN}"
    unfolding tl by simp
  with e a tl w show ?thesis
    by blast
qed

section \<open>The ranking\<close>

subsection \<open>Supporting lemmas\<close>

lemma rank_key_inj: "(rank_key x = rank_key y) = (x = y)"
  by (cases x; cases y) auto

lemma cell_less_key: "x \<noteq> NaN \<Longrightarrow> y \<noteq> NaN \<Longrightarrow> cell_less x y = (rank_key x < rank_key y)"
  by (cases x; cases y) auto

lemma cell_less_NaN: "cell_less x NaN = False"
  by (cases x) auto

lemma above_Cons: "above w (v # rest) = (if cell_less w v then 1 else 0) + above w rest"
  by (simp add: above_def)

lemma ties_Cons: "ties w (v # rest) = (if v = w then 1 else 0) + ties w rest"
  by (simp add: ties_def)

lemma ties_notin: "w \<notin> set xs \<Longrightarrow> ties w xs = 0"
  by (induction xs) (auto simp: ties_Cons ties_def)

lemma position_sum_0: "position_sum g 0 = 0"
  by (simp add: position_sum_def)

lemma position_sum_Suc: "position_sum g (e + 1) = of_nat (g + 1) + position_sum (g + 1) e"
  by (simp add: position_sum_def sum.atLeast_Suc_atMost)

lemma position_sum_1: "position_sum g (Suc 0) = 1 + of_nat g"
  by (simp add: position_sum_def)

lemma descending_Cons:
  "descending (v # rest) = ((\<forall>y\<in>set rest. rank_key y \<le> rank_key v) \<and> descending rest)"
  by (simp add: descending_def)

lemma descending_below_head:
  assumes "descending (v # rest)" and "w \<in> set rest" and "w \<noteq> v"
  shows "rank_key w < rank_key v"
proof -
  from assms(1,2) have "rank_key w \<le> rank_key v"
    by (simp add: descending_Cons)
  moreover from assms(3) have "rank_key w \<noteq> rank_key v"
    by (simp add: rank_key_inj)
  ultimately show ?thesis by simp
qed

lemma above_none:
  assumes "\<forall>y\<in>set xs. rank_key y \<le> rank_key v" and "NaN \<notin> set (v # xs)"
  shows "above v xs = 0"
proof -
  have "\<not> cell_less v y" if "y \<in> set xs" for y
  proof -
    from that assms(2) have "y \<noteq> NaN" "v \<noteq> NaN" by auto
    then have "cell_less v y = (rank_key v < rank_key y)"
      by (simp add: cell_less_key)
    with assms(1) that show ?thesis by auto
  qed
  then show ?thesis
    by (simp add: above_def filter_empty_conv)
qed

lemma descending_run_end:
  assumes "descending (v # u # rest)" and "u \<noteq> v"
  shows "v \<notin> set (u # rest)"
proof
  assume "v \<in> set (u # rest)"
  with assms(1) have "rank_key v \<le> rank_key u"
    by (auto simp: descending_Cons)
  moreover have "rank_key u < rank_key v"
    using descending_below_head [OF assms(1) _ assms(2)] by simp
  ultimately show False by simp
qed

lemma assign_ranks_end:
  assumes "rest = [] \<or> hd rest \<noteq> v"
  shows "assign_ranks i d s (v # rest) =
          (v, (s + of_nat (i + 1)) / of_nat (d + 1)) # assign_ranks (i + 1) 0 0 rest"
  using assms by (cases rest) simp_all

lemma assign_ranks_run:
  assumes "rest \<noteq> []" and "hd rest = v"
  shows "assign_ranks i d s (v # rest) =
          assign_ranks (i + 1) (d + 1) (s + of_nat (i + 1)) rest"
  using assms by (cases rest) simp_all

lemma assign_ranks_lookup:
  assumes "descending xs" and "NaN \<notin> set xs" and "w \<in> set xs"
  shows "map_of (assign_ranks i d s xs) w =
    Some (((if w = hd xs then s else 0) + position_sum (i + above w xs) (ties w xs)) /
          of_nat ((if w = hd xs then d else 0) + ties w xs))"
  using assms
proof (induction xs arbitrary: i d s)
  case Nil
  then show ?case by simp
next
  case (Cons v rest)
  note desc = \<open>descending (v # rest)\<close>
  have drest: "descending rest" and nrest: "NaN \<notin> set rest"
    using desc Cons.prems(2) by (simp_all add: descending_Cons)
  have wN: "w \<noteq> NaN" and vN: "v \<noteq> NaN"
    using Cons.prems(2,3) by auto
  have av: "above v rest = 0"
    using desc Cons.prems(2) by (intro above_none) (simp_all add: descending_Cons)
  have vv: "\<not> cell_less v v"
    using vN by (simp add: cell_less_key)
  have below: "above w (v # rest) = above w rest + 1 \<and> ties w (v # rest) = ties w rest"
    if win: "w \<in> set rest" and wv: "w \<noteq> v"
  proof -
    have "rank_key w < rank_key v"
      by (rule descending_below_head [OF desc win wv])
    then have "cell_less w v"
      using wN vN by (simp add: cell_less_key)
    then show ?thesis
      using wv by (simp add: above_Cons ties_Cons)
  qed
  show ?case
  proof (cases "rest = [] \<or> hd rest \<noteq> v")
    case True
    note step = assign_ranks_end [OF True, of i d s]
    have vnot: "v \<notin> set rest"
    proof (cases rest)
      case Nil
      then show ?thesis by simp
    next
      case (Cons u rest')
      with True desc descending_run_end [of v u rest'] show ?thesis by simp
    qed
    show ?thesis
    proof (cases "w = v")
      case wv: True
      have "ties v (v # rest) = 1" "above v (v # rest) = 0"
        using vnot av vv by (simp_all add: ties_Cons above_Cons ties_notin)
      then show ?thesis
        unfolding step wv by (simp add: position_sum_1)
    next
      case wv: False
      with Cons.prems have win: "w \<in> set rest" by simp
      then have "rest \<noteq> []" by auto
      have "map_of (assign_ranks i d s (v # rest)) w = map_of (assign_ranks (i + 1) 0 0 rest) w"
        unfolding step using wv by simp
      also have "\<dots> = Some (position_sum (i + 1 + above w rest) (ties w rest) / of_nat (ties w rest))"
        using Cons.IH [OF drest nrest win, of "i + 1" 0 0] by simp
      finally show ?thesis
        using wv below [OF win wv] by (simp add: add.commute add.left_commute)
    qed
  next
    case False
    then have ne: "rest \<noteq> []" and hd: "hd rest = v" by simp_all
    note step = assign_ranks_run [OF ne hd, of i d s]
    have vin: "v \<in> set rest"
      using ne hd by (cases rest) simp_all
    show ?thesis
    proof (cases "w = v")
      case wv: True
      have t: "ties v (v # rest) = ties v rest + 1" and a: "above v (v # rest) = 0"
        using av vv by (simp_all add: ties_Cons above_Cons)
      have "map_of (assign_ranks i d s (v # rest)) v =
          Some ((s + of_nat (i + 1) + position_sum (i + 1) (ties v rest)) /
            of_nat (d + 1 + ties v rest))"
        unfolding step
        using Cons.IH [OF drest nrest vin [folded wv], of "i + 1" "d + 1" "s + of_nat (i + 1)"] hd av wv
        by simp
      also have "s + of_nat (i + 1) + position_sum (i + 1) (ties v rest) =
          s + position_sum i (ties v rest + 1)"
        by (simp only: position_sum_Suc add.assoc)
      also have "d + 1 + ties v rest = d + (ties v rest + 1)"
        by simp
      finally show ?thesis
        unfolding wv t a by simp
    next
      case wv: False
      with Cons.prems have win: "w \<in> set rest" by simp
      have "map_of (assign_ranks i d s (v # rest)) w =
         Some (position_sum (i + 1 + above w rest) (ties w rest) / of_nat (ties w rest))"
        unfolding step
        using Cons.IH [OF drest nrest win, of "i + 1" "d + 1" "s + of_nat (i + 1)"] hd wv by simp
      then show ?thesis
        using wv below [OF win wv] by (simp add: add.commute add.left_commute)
    qed
  qed
qed

lemma position_sum_closed:
  "position_sum g e = of_nat e * of_nat g + of_nat e * (of_nat e + 1) / 2"
  by (induction e) (simp_all add: position_sum_def field_simps)

lemma count_after_sort:
  "length (filter P (rev (sort_key f ys))) = length (filter P ys)"
proof -
  have "filter P (rev (sort_key f ys)) = rev (sort_key f (filter P ys))"
    by (simp add: rev_filter [symmetric] filter_sort)
  then show ?thesis by simp
qed

lemma descending_sort: "descending (rev (sort_key rank_key ys))"
proof -
  have "sorted (map rank_key (sort_key rank_key ys))"
    by (rule sorted_sort_key)
  then have "sorted_wrt (\<lambda>x y. rank_key x \<le> rank_key y) (sort_key rank_key ys)"
    by (simp add: sorted_wrt_map)
  then show ?thesis
    by (simp add: descending_def sorted_wrt_rev)
qed

lemma above_sorted:
  "above x (rev (sort_key rank_key (filter (\<lambda>y. y \<noteq> NaN) row))) = above x row"
proof -
  have "filter (cell_less x) (filter (\<lambda>y. y \<noteq> NaN) row) = filter (cell_less x) row"
    by (auto simp: cell_less_NaN intro: filter_cong)
  then show ?thesis
    by (simp add: above_def count_after_sort)
qed

lemma ties_sorted:
  assumes "x \<noteq> NaN"
  shows "ties x (rev (sort_key rank_key (filter (\<lambda>y. y \<noteq> NaN) row))) = ties x row"
proof -
  have "filter (\<lambda>y. y = x) (filter (\<lambda>y. y \<noteq> NaN) row) = filter (\<lambda>y. y = x) row"
    using assms by (auto intro: filter_cong)
  then show ?thesis
    by (simp add: ties_def count_after_sort)
qed

lemma ties_pos: "x \<in> set row \<Longrightarrow> 0 < ties x row"
  by (simp add: ties_def filter_empty_conv)

lemma rank_row_nth:
  assumes "c < length row" and "row ! c \<noteq> NaN"
  shows "rank_row row ! c =
    Fin (position_sum (above (row ! c) row) (ties (row ! c) row) / of_nat (ties (row ! c) row))"
proof -
  let ?xs = "rev (sort_key rank_key (filter (\<lambda>y. y \<noteq> NaN) row))"
  have mem: "row ! c \<in> set ?xs"
    using assms by simp
  have nan: "NaN \<notin> set ?xs"
    by simp
  have "map_of (assign_ranks 0 0 0 ?xs) (row ! c) =
      Some (position_sum (above (row ! c) ?xs) (ties (row ! c) ?xs) / of_nat (ties (row ! c) ?xs))"
    using assign_ranks_lookup [OF descending_sort nan mem, of 0 0 0] by simp
  then have "map_of (assign_ranks 0 0 0 ?xs) (row ! c) =
      Some (position_sum (above (row ! c) row) (ties (row ! c) row) / of_nat (ties (row ! c) row))"
    by (simp only: above_sorted ties_sorted [OF assms(2)])
  then show ?thesis
    using assms(1) by (simp add: rank_row_def Let_def)
qed

lemma assign_ranks_keys: "fst ` set (assign_ranks i d s xs) \<subseteq> set xs"
proof (induction xs arbitrary: i d s)
  case Nil
  then show ?case by simp
next
  case (Cons v rest)
  show ?case
  proof (cases "rest = [] \<or> hd rest \<noteq> v")
    case True
    show ?thesis
      unfolding assign_ranks_end [OF True] using Cons.IH [of "i + 1" 0 0] by auto
  next
    case False
    then have ne: "rest \<noteq> []" and hd: "hd rest = v" by simp_all
    show ?thesis
      unfolding assign_ranks_run [OF ne hd] using Cons.IH [of "i + 1" "d + 1" "s + of_nat (i + 1)"]
      by auto
  qed
qed

lemma rank_row_NaN:
  assumes "c < length row" and "row ! c = NaN"
  shows "rank_row row ! c = NaN"
proof -
  let ?xs = "rev (sort_key rank_key (filter (\<lambda>y. y \<noteq> NaN) row))"
  have "NaN \<notin> fst ` set (assign_ranks 0 0 0 ?xs)"
    using assign_ranks_keys [of 0 0 0 ?xs] by auto
  then have "map_of (assign_ranks 0 0 0 ?xs) NaN = None"
    by (simp add: map_of_eq_None_iff)
  then show ?thesis
    using assms by (simp add: rank_row_def Let_def)
qed

subsection \<open>Average ranks in descending order\<close>

text \<open>
  Claim C6. In every retained row of the raw frame, a cell that is not \<^verbatim>\<open>nan\<close> has as
  its rank the mean of the positions that the cells equal to it occupy together in the
  descending order: with \<open>g\<close> cells strictly above it and \<open>e\<close> cells equal to it
  (itself included), the mean of the positions \<open>g + 1\<close> to \<open>g + e\<close>, which is
  \<open>g + (e + 1) / 2\<close>. So the single highest cell of a row has rank 1, and two cells that
  tie for the highest value have rank 1.5 each. The ranks are computed from the raw
  values of \<open>df_period\<close>, not from the wealth index.
\<close>

theorem ranking_average:
  assumes "t < length (tail weeks df)"
    and "c < length (tail weeks df ! t)"
    and "tail weeks df ! t ! c \<noteq> NaN"
  shows "ranking df weeks ! t ! c =
      Fin ((\<Sum>k = above (tail weeks df ! t ! c) (tail weeks df ! t) + 1..
                 above (tail weeks df ! t ! c) (tail weeks df ! t) +
                 ties (tail weeks df ! t ! c) (tail weeks df ! t). rat_of_nat k) /
           of_nat (ties (tail weeks df ! t ! c) (tail weeks df ! t))) \<and>
    ranking df weeks ! t ! c =
      Fin (of_nat (above (tail weeks df ! t ! c) (tail weeks df ! t)) +
           (of_nat (ties (tail weeks df ! t ! c) (tail weeks df ! t)) + 1) / 2) \<and>
    0 < ties (tail weeks df ! t ! c) (tail weeks df ! t) \<and>
    (above (tail weeks df ! t ! c) (tail weeks df ! t) = 0 \<and>
     ties (tail weeks df ! t ! c) (tail weeks df ! t) = 1 \<longrightarrow> ranking df weeks ! t ! c = Fin 1) \<and>
    (above (tail weeks df ! t ! c) (tail weeks df ! t) = 0 \<and>
     ties (tail weeks df ! t ! c) (tail weeks df ! t) = 2 \<longrightarrow> ranking df weeks ! t ! c = Fin 1.5)"
proof -
  let ?row = "tail weeks df ! t"
  let ?x = "?row ! c"
  let ?g = "above ?x ?row"
  let ?e = "ties ?x ?row"
  have r: "ranking df weeks ! t ! c = rank_row ?row ! c"
    using assms(1) by (simp add: ranking_def)
  have pos: "0 < ?e"
    using assms(2) by (intro ties_pos) simp
  have avg: "ranking df weeks ! t ! c = Fin (position_sum ?g ?e / of_nat ?e)"
    unfolding r by (rule rank_row_nth [OF assms(2,3)])
  have closed: "position_sum ?g ?e / of_nat ?e = of_nat ?g + (of_nat ?e + 1) / 2"
    using pos by (simp add: position_sum_closed field_simps)
  have one: "ranking df weeks ! t ! c = Fin 1" if "?g = 0 \<and> ?e = 1"
    unfolding avg closed using that by simp
  have two: "ranking df weeks ! t ! c = Fin 1.5" if "?g = 0 \<and> ?e = 2"
    unfolding avg closed using that by simp
  from avg closed pos one two show ?thesis
    unfolding position_sum_def by (intro conjI impI) simp_all
qed

theorem ranking_average_witness:
  "ranking [[Fin 9, Fin 9, Fin 9], [Fin 3, Fin 1, Fin 3], [Fin 2, Fin 7, Fin 5]] 2 =
     [[Fin 1.5, Fin 3, Fin 1.5], [Fin 3, Fin 1, Fin 2]] \<and>
   above (Fin 3) [Fin 3, Fin 1, Fin 3] = 0 \<and> ties (Fin 3) [Fin 3, Fin 1, Fin 3] = 2"
proof -
  let ?df = "[[Fin 9, Fin 9, Fin 9], [Fin 3, Fin 1, Fin 3], [Fin 2, Fin 7, Fin 5]]"
  have tl: "tail 2 ?df = [[Fin 3, Fin 1, Fin 3], [Fin 2, Fin 7, Fin 5]]"
    by (simp add: tail_def)
  have t: "0 < length (tail 2 ?df)" and c: "0 < length (tail 2 ?df ! 0)"
    and n: "tail 2 ?df ! 0 ! 0 \<noteq> NaN"
    by (simp_all add: tl)
  have r: "ranking ?df 2 = [[Fin 1.5, Fin 3, Fin 1.5], [Fin 3, Fin 1, Fin 2]]"
    by (simp add: ranking_def tl rank_row_def)
  have g: "above (Fin 3) [Fin 3, Fin 1, Fin 3] = 0" and e: "ties (Fin 3) [Fin 3, Fin 1, Fin 3] = 2"
    by (simp_all add: above_def ties_def)
  from ranking_average [OF t c n] r g e show ?thesis
    by simp
qed

end
